theory Spec2Isabelle
  imports Complex_Main "HOL-Library.Multiset"
begin

section \<open>The evolution example of the walkers (NN3DWalkers.cpp)\<close>

text \<open>
  The embedding follows \<^verbatim>\<open>examples/Evolution/NN3DWalkers.cpp\<close>. A \<^verbatim>\<open>btScalar\<close> is a
  real number: the constants \<^verbatim>\<open>0.3f\<close>, \<^verbatim>\<open>0.2f\<close>, ... are taken at their decimal values and
  arithmetic is exact. A C \<^verbatim>\<open>int\<close> is an \<open>int\<close>; the conversion of a \<^verbatim>\<open>btScalar\<close> to
  \<^verbatim>\<open>int\<close> (an initialiser, an array subscript) truncates towards zero. A pointer to a
  walker of the population is the slot it is stored in, \<^verbatim>\<open>NULL\<close> is \<open>None\<close>.
  The file's macros can be overridden at build time (\<^verbatim>\<open>#ifndef\<close>), so they are fields
  of a configuration record, next to the tunables kept in global variables.
  Rendering, text drawing and the time series canvas do not touch the state below and
  are left out; so is the membership of bodies and constraints in the dynamics world.
\<close>

subsection \<open>Configuration\<close>

record config =
  POPULATION_SIZE :: nat
  EVALUATION_DURATION :: real
  REAP_QTY :: real
  SOW_CROSSOVER_QTY :: real
  SOW_ELITE_QTY :: real
  SOW_MUTATION_QTY :: real
  MUTATION_RATE :: real
  SOW_ELITE_PARTNER :: real
  TIMESTAMP_TIME :: real
  gWalkerMotorStrength :: real
  gWalkerLegTargetFrequency :: real
  gParallelEvaluations :: real

text \<open>
  The values the file gives. \<^verbatim>\<open>initPhysics\<close> sets the motor update frequency to 3 and the
  motor strength to \<^verbatim>\<open>0.05f\<close> times the solver's iteration count (10 in the solver's
  defaults).
\<close>

definition default_config :: config where
  "default_config =
     \<lparr> POPULATION_SIZE = 50, EVALUATION_DURATION = 10, REAP_QTY = 3 / 10,
       SOW_CROSSOVER_QTY = 2 / 10, SOW_ELITE_QTY = 2 / 10, SOW_MUTATION_QTY = 5 / 10,
       MUTATION_RATE = 5 / 10, SOW_ELITE_PARTNER = 8 / 10, TIMESTAMP_TIME = 2000,
       gWalkerMotorStrength = 5 / 10, gWalkerLegTargetFrequency = 3,
       gParallelEvaluations = 10 \<rparr>"

definition NUM_WALKER_LEGS :: nat where
  "NUM_WALKER_LEGS = 6"

definition BODYPART_COUNT :: nat where
  "BODYPART_COUNT = 2 * NUM_WALKER_LEGS + 1"

definition JOINT_COUNT :: nat where
  "JOINT_COUNT = BODYPART_COUNT - 1"

definition gRootBodyRadius :: real where "gRootBodyRadius = 25 / 100"
definition gRootBodyHeight :: real where "gRootBodyHeight = 1 / 10"
definition gLegRadius :: real where "gLegRadius = 1 / 10"
definition gLegLength :: real where "gLegLength = 45 / 100"
definition gForeLegLength :: real where "gForeLegLength = 75 / 100"
definition gForeLegRadius :: real where "gForeLegRadius = 8 / 100"

subsection \<open>Errors, loops and conversions\<close>

text \<open>
  What C++ leaves undefined is an error value here: a member access through \<^verbatim>\<open>NULL\<close> and
  a subscript outside the population array.
\<close>

datatype error = NullPointer | OutOfBounds

fun bindE :: "error + 'a \<Rightarrow> ('a \<Rightarrow> error + 'b) \<Rightarrow> error + 'b" where
  "bindE (Inl e) f = Inl e"
| "bindE (Inr x) f = f x"

definition trunc :: "real \<Rightarrow> int" where
  \<comment> \<open>conversion of a floating value to \<^verbatim>\<open>int\<close>\<close>
  "trunc x = (if 0 \<le> x then \<lfloor>x\<rfloor> else \<lceil>x\<rceil>)"

definition slot_at :: "'a list \<Rightarrow> int \<Rightarrow> error + nat" where
  \<comment> \<open>the slot a subscript of the population array denotes\<close>
  "slot_at xs i = (if 0 \<le> i \<and> i < int (length xs) then Inr (nat i) else Inl OutOfBounds)"

text \<open>
  \<^verbatim>\<open>for (int i = lo; i < b; i++) body\<close>, where the bound \<open>b\<close> may be a floating value
  (the comparison converts \<open>i\<close>); \<open>for_upE\<close> is the same loop with a body that may
  fail, and \<open>for_downE\<close> is \<^verbatim>\<open>for (int i = hi; i >= b; i--) body\<close>.
\<close>

function for_up :: "int \<Rightarrow> real \<Rightarrow> (int \<Rightarrow> 's \<Rightarrow> 's) \<Rightarrow> 's \<Rightarrow> 's" where
  "for_up i b body s = (if real_of_int i < b then for_up (i + 1) b body (body i s) else s)"
  by pat_completeness auto
termination
  by (relation "measure (\<lambda>(i, b, body, s). nat (\<lceil>b\<rceil> - i))") (auto simp: less_ceiling_iff)

function for_upE :: "int \<Rightarrow> real \<Rightarrow> (int \<Rightarrow> 's \<Rightarrow> error + 's) \<Rightarrow> 's \<Rightarrow> error + 's" where
  "for_upE i b body s =
     (if real_of_int i < b
      then (case body i s of Inl e \<Rightarrow> Inl e | Inr s' \<Rightarrow> for_upE (i + 1) b body s')
      else Inr s)"
  by pat_completeness auto
termination
  by (relation "measure (\<lambda>(i, b, body, s). nat (\<lceil>b\<rceil> - i))") (auto simp: less_ceiling_iff)

function for_downE :: "int \<Rightarrow> real \<Rightarrow> (int \<Rightarrow> 's \<Rightarrow> error + 's) \<Rightarrow> 's \<Rightarrow> error + 's" where
  "for_downE i b body s =
     (if b \<le> real_of_int i
      then (case body i s of Inl e \<Rightarrow> Inl e | Inr s' \<Rightarrow> for_downE (i - 1) b body s')
      else Inr s)"
  by pat_completeness auto
termination
  by (relation "measure (\<lambda>(i, b, body, s). nat (i - \<lceil>b\<rceil> + 1))") (auto simp: ceiling_le_iff)

subsection \<open>The random source\<close>

text \<open>
  \<^verbatim>\<open>rand()\<close> is the C library's generator. Its sequence of results is a parameter
  \<open>rnd\<close> of the model, cut to the range \<open>0 .. RAND_MAX\<close>, and the state counts the calls
  made so far. \<open>RAND_MAX\<close> has the value of the GNU C library.
\<close>

definition RAND_MAX :: nat where
  "RAND_MAX = 2147483647"

definition rand :: "(nat \<Rightarrow> nat) \<Rightarrow> nat \<Rightarrow> nat" where
  "rand rnd n = rnd n mod (RAND_MAX + 1)"

definition rand_unit :: "(nat \<Rightarrow> nat) \<Rightarrow> nat \<Rightarrow> real" where
  \<comment> \<open>\<^verbatim>\<open>((double) rand() / (RAND_MAX))\<close>\<close>
  "rand_unit rnd n = real (rand rnd n) / real RAND_MAX"

definition rand_weight :: "(nat \<Rightarrow> nat) \<Rightarrow> nat \<Rightarrow> real" where
  \<comment> \<open>\<^verbatim>\<open>((double) rand() / (RAND_MAX))*2.0f-1.0f\<close>\<close>
  "rand_weight rnd n = rand_unit rnd n * 2 - 1"

definition rand_quot :: "(nat \<Rightarrow> nat) \<Rightarrow> nat \<Rightarrow> nat" where
  \<comment> \<open>\<^verbatim>\<open>rand()/RAND_MAX\<close>, a division of two \<^verbatim>\<open>int\<close>s\<close>
  "rand_quot rnd n = rand rnd n div RAND_MAX"

subsection \<open>Vectors, hinges and walkers\<close>

type_synonym btVector3 = "real \<times> real \<times> real"

fun vadd :: "btVector3 \<Rightarrow> btVector3 \<Rightarrow> btVector3" where
  "vadd (a, b, c) (x, y, z) = (a + x, b + y, c + z)"

fun vsub :: "btVector3 \<Rightarrow> btVector3 \<Rightarrow> btVector3" where
  "vsub (a, b, c) (x, y, z) = (a - x, b - y, c - z)"

fun vdiv :: "btVector3 \<Rightarrow> real \<Rightarrow> btVector3" where
  "vdiv (a, b, c) k = (a / k, b / k, c / k)"

fun length2 :: "btVector3 \<Rightarrow> real" where
  "length2 (a, b, c) = a * a + b * b + c * c"

record btHingeConstraint =
  m_lowerLimit :: real
  m_upperLimit :: real
  m_hingeAngle :: real
  m_enableAngularMotor :: bool
  m_motorTargetVelocity :: real
  m_maxMotorImpulse :: real

text \<open>
  \<open>m_bodies\<close> holds the centre of mass of each body and \<open>m_hingeAngle\<close> the angle of
  each hinge, as the dynamics world reports them.
\<close>

record NNWalker =
  m_bodies :: "btVector3 list"
  m_joints :: "btHingeConstraint list"
  m_touchSensors :: "bool list"
  m_sensoryMotorWeights :: "real list"
  m_inEvaluation :: bool
  m_evaluationTime :: real
  m_reaped :: bool
  m_startPosition :: btVector3
  m_index :: int
  m_legUpdateAccumulator :: real

definition randomizeSensoryMotorWeights :: "(nat \<Rightarrow> nat) \<Rightarrow> real list \<times> nat \<Rightarrow> real list \<times> nat" where
  "randomizeSensoryMotorWeights rnd =
     for_up 0 (real BODYPART_COUNT) (\<lambda>i.
       for_up 0 (real JOINT_COUNT) (\<lambda>j (ws, n).
         (ws[nat (i + j * int BODYPART_COUNT) := rand_weight rnd n], n + 1)))"

definition copySensoryMotorWeights :: "real list \<Rightarrow> real list \<Rightarrow> real list" where
  "copySensoryMotorWeights sensoryMotorWeights =
     for_up 0 (real BODYPART_COUNT) (\<lambda>i.
       for_up 0 (real JOINT_COUNT) (\<lambda>j ws.
         ws[nat (i + j * int BODYPART_COUNT) := sensoryMotorWeights ! nat (i + j * int BODYPART_COUNT)]))"

definition setTouchSensor :: "nat \<Rightarrow> NNWalker \<Rightarrow> NNWalker" where
  \<comment> \<open>the argument is the sensor index the body pointer is mapped to\<close>
  "setTouchSensor k w = w\<lparr>m_touchSensors := (m_touchSensors w)[k := True]\<rparr>"

definition clearTouchSensors :: "NNWalker \<Rightarrow> NNWalker" where
  "clearTouchSensors w = w\<lparr>m_touchSensors := replicate BODYPART_COUNT False\<rparr>"

definition getTouchSensor :: "NNWalker \<Rightarrow> nat \<Rightarrow> bool" where
  "getTouchSensor w i = m_touchSensors w ! i"

definition getPosition :: "NNWalker \<Rightarrow> btVector3" where
  "getPosition w = vdiv (fold (\<lambda>p acc. vadd acc p) (m_bodies w) (0, 0, 0)) (real BODYPART_COUNT)"

definition getDistanceFitness :: "NNWalker \<Rightarrow> real" where
  "getDistanceFitness w = length2 (vsub (getPosition w) (m_startPosition w))"

definition getFitness :: "NNWalker \<Rightarrow> real" where
  "getFitness w = getDistanceFitness w"

definition hip_joint :: btHingeConstraint where
  \<comment> \<open>\<^verbatim>\<open>setLimit(-0.75 * SIMD_PI_4, SIMD_PI_8)\<close>\<close>
  "hip_joint = \<lparr> m_lowerLimit = - (75 / 100) * (5 / 10) * (pi / 2), m_upperLimit = (25 / 100) * (pi / 2),
       m_hingeAngle = 0, m_enableAngularMotor = False, m_motorTargetVelocity = 0,
       m_maxMotorImpulse = 0 \<rparr>"

definition knee_joint :: btHingeConstraint where
  \<comment> \<open>\<^verbatim>\<open>setLimit(-SIMD_PI_8, 0.2)\<close>\<close>
  "knee_joint = \<lparr> m_lowerLimit = - (25 / 100) * (pi / 2), m_upperLimit = 2 / 10,
       m_hingeAngle = 0, m_enableAngularMotor = False, m_motorTargetVelocity = 0,
       m_maxMotorImpulse = 0 \<rparr>"

definition leg_bodies :: "btVector3 \<Rightarrow> nat \<Rightarrow> btVector3 list" where
  \<comment> \<open>thigh and shin of leg \<open>i\<close>, placed around the root body\<close>
  "leg_bodies startingPosition i =
     (let footAngle = 2 * pi * real i / real NUM_WALKER_LEGS;
          footYUnitPosition = sin footAngle;
          footXUnitPosition = cos footAngle;
          rootAboveGroundHeight = gForeLegLength
      in [ vadd startingPosition
             (footXUnitPosition * (gRootBodyRadius + (5 / 10) * gLegLength), rootAboveGroundHeight,
              footYUnitPosition * (gRootBodyRadius + (5 / 10) * gLegLength)),
           vadd startingPosition
             (footXUnitPosition * (gRootBodyRadius + gLegLength),
              rootAboveGroundHeight - (5 / 10) * gForeLegLength,
              footYUnitPosition * (gRootBodyRadius + gLegLength)) ])"

text \<open>
  The constructor: bodies and hinges are laid out, the sensors cleared and the weights
  drawn at random. A hinge is built with coinciding frames, so its angle starts at 0.
  The second component is the number of \<^verbatim>\<open>rand()\<close> calls made afterwards.
\<close>

definition NNWalker_new :: "int \<Rightarrow> btVector3 \<Rightarrow> (nat \<Rightarrow> nat) \<Rightarrow> nat \<Rightarrow> NNWalker \<times> nat" where
  "NNWalker_new index startingPosition rnd n =
     (let (ws, n') = randomizeSensoryMotorWeights rnd (replicate (BODYPART_COUNT * JOINT_COUNT) 0, n)
      in (\<lparr> m_bodies = vadd startingPosition (0, gForeLegLength, 0)
                # concat (map (leg_bodies startingPosition) [0..<NUM_WALKER_LEGS]),
             m_joints = concat (replicate NUM_WALKER_LEGS [hip_joint, knee_joint]),
             m_touchSensors = replicate BODYPART_COUNT False,
             m_sensoryMotorWeights = ws,
             m_inEvaluation = False,
             m_evaluationTime = 0,
             m_reaped = False,
             m_startPosition = startingPosition,
             m_index = index,
             m_legUpdateAccumulator = 0 \<rparr>, n'))"

subsection \<open>The controller\<close>

text \<open>
  The body of the evaluation loop of \<^verbatim>\<open>updateEvaluations\<close> for one walker. The inner loop
  over \<open>j\<close> accumulates the activation of hinge \<open>i\<close>; a \<^verbatim>\<open>bool\<close> sensor value enters the
  product as 0 or 1.
\<close>

definition summate_inputs :: "NNWalker \<Rightarrow> int \<Rightarrow> real" where
  "summate_inputs w i =
     for_up 0 (real JOINT_COUNT) (\<lambda>j targetAngle.
       targetAngle + m_sensoryMotorWeights w ! nat (i + j * int BODYPART_COUNT)
                       * of_bool (getTouchSensor w (nat i))) 0"

definition activation :: "real \<Rightarrow> real" where
  \<comment> \<open>\<^verbatim>\<open>(tanh(targetAngle)+1.0f)*0.5f\<close>\<close>
  "activation targetAngle = (tanh targetAngle + 1) * (5 / 10)"

definition targetLimitAngle :: "btHingeConstraint \<Rightarrow> real \<Rightarrow> real" where
  "targetLimitAngle hingeC targetAngle =
     m_lowerLimit hingeC + targetAngle * (m_upperLimit hingeC - m_lowerLimit hingeC)"

definition update_joint :: "config \<Rightarrow> real \<Rightarrow> int \<Rightarrow> NNWalker \<Rightarrow> NNWalker" where
  "update_joint cfg delta i w =
     (let hingeC = m_joints w ! nat i;
          targetAngle = activation (summate_inputs w i);
          currentAngle = m_hingeAngle hingeC;
          angleError = targetLimitAngle hingeC targetAngle - currentAngle;
          desiredAngularVel = angleError / (if 0 < delta then delta else 1 / 10000)
      in w\<lparr>m_joints := (m_joints w)[nat i := hingeC\<lparr>m_enableAngularMotor := True,
              m_motorTargetVelocity := desiredAngularVel,
              m_maxMotorImpulse := gWalkerMotorStrength cfg\<rparr>]\<rparr>)"

definition leg_update_due :: "config \<Rightarrow> NNWalker \<Rightarrow> bool" where
  \<comment> \<open>\<^verbatim>\<open>getLegUpdateAccumulator() >= btScalar(1.0f) / gWalkerLegTargetFrequency\<close>; a frequency
      of 0 makes the quotient infinite, which no accumulator reaches\<close>
  "leg_update_due cfg w \<longleftrightarrow>
     gWalkerLegTargetFrequency cfg \<noteq> 0
     \<and> 1 / gWalkerLegTargetFrequency cfg \<le> m_legUpdateAccumulator w"

definition update_walker :: "config \<Rightarrow> real \<Rightarrow> NNWalker \<Rightarrow> NNWalker" where
  "update_walker cfg delta w =
     (let w1 = w\<lparr>m_evaluationTime := m_evaluationTime w + delta\<rparr>;
          w2 = w1\<lparr>m_legUpdateAccumulator := m_legUpdateAccumulator w1 + delta\<rparr>;
          w3 = (if leg_update_due cfg w2
                then for_up 0 (real (2 * NUM_WALKER_LEGS)) (update_joint cfg delta)
                       (w2\<lparr>m_legUpdateAccumulator := 0\<rparr>)
                else w2)
      in clearTouchSensors w3)"

subsection \<open>The example: population, scheduler and evolution\<close>

datatype message =
    EvaluationStarted real
  | EvaluationFinished real real
  | BestPerformingWalker real
  | NotDeterministic
  | WalkersReaped int
  | WalkersSown int
  | NewGeneration
  | AvgEffectiveSpeedup

text \<open>
  \<open>console\<close> is the sequence of \<^verbatim>\<open>b3Printf\<close> messages and \<open>randCalls\<close> the number of
  \<^verbatim>\<open>rand()\<close> calls so far. The population array holds \<^verbatim>\<open>NULL\<close> only between its
  \<^verbatim>\<open>resize\<close> and the constructor loop of \<^verbatim>\<open>initPhysics\<close>; here an array of walkers grows
  in that loop instead, and a slot that exists holds a walker. The loops over
  \<^verbatim>\<open>r < POPULATION_SIZE\<close> subscript the array within its size.
\<close>

record NN3DWalkersExample =
  m_SimulationTime :: real
  m_LastSpeedupPrintTimestamp :: real
  m_bestWalkerFitness :: real
  m_resetPosition :: btVector3
  m_walkersInEvaluation :: int
  m_nextReapedIndex :: int
  m_walkersInPopulation :: "NNWalker list"
  randCalls :: nat
  console :: "message list"

definition b3Printf :: "message \<Rightarrow> NN3DWalkersExample \<Rightarrow> NN3DWalkersExample" where
  "b3Printf m s = s\<lparr>console := console s @ [m]\<rparr>"

definition set_walker :: "nat \<Rightarrow> NNWalker \<Rightarrow> NN3DWalkersExample \<Rightarrow> NN3DWalkersExample" where
  \<comment> \<open>a write through the pointer in slot \<open>k\<close>\<close>
  "set_walker k w s = s\<lparr>m_walkersInPopulation := (m_walkersInPopulation s)[k := w]\<rparr>"

definition walker :: "NN3DWalkersExample \<Rightarrow> nat \<Rightarrow> NNWalker" where
  "walker s k = m_walkersInPopulation s ! k"

definition NN3DWalkersExample_new :: NN3DWalkersExample where
  "NN3DWalkersExample_new =
     \<lparr> m_SimulationTime = 0, m_LastSpeedupPrintTimestamp = 0, m_bestWalkerFitness = 0,
       m_resetPosition = (0, 0, 0), m_walkersInEvaluation = 0, m_nextReapedIndex = 0,
       m_walkersInPopulation = [], randCalls = 0, console = [] \<rparr>"

definition resetWalkerAt :: "(nat \<Rightarrow> nat) \<Rightarrow> int \<Rightarrow> btVector3 \<Rightarrow> NN3DWalkersExample \<Rightarrow> NN3DWalkersExample" where
  "resetWalkerAt rnd i resetPosition s =
     (let (newWalker, n) = NNWalker_new i resetPosition rnd (randCalls s);
          s1 = s\<lparr>randCalls := n\<rparr>
      in if nat i < length (m_walkersInPopulation s1)
         then set_walker (nat i)
                (newWalker\<lparr>m_sensoryMotorWeights :=
                   copySensoryMotorWeights (m_sensoryMotorWeights (walker s1 (nat i)))
                     (m_sensoryMotorWeights newWalker)\<rparr>) s1
         else s1\<lparr>m_walkersInPopulation := m_walkersInPopulation s1 @ [newWalker]\<rparr>)"

definition initPhysics :: "config \<Rightarrow> (nat \<Rightarrow> nat) \<Rightarrow> NN3DWalkersExample" where
  "initPhysics cfg rnd =
     for_up 0 (real (POPULATION_SIZE cfg)) (\<lambda>i s. resetWalkerAt rnd i (m_resetPosition s) s)
       (NN3DWalkersExample_new\<lparr>m_SimulationTime := 0\<rparr>)"

definition updateEvaluations :: "config \<Rightarrow> real \<Rightarrow> NN3DWalkersExample \<Rightarrow> NN3DWalkersExample" where
  "updateEvaluations cfg timeSinceLastTick s =
     (let minFPS = 1 / 60;
          delta = (if minFPS < timeSinceLastTick then minFPS else timeSinceLastTick);
          s1 = s\<lparr>m_SimulationTime := m_SimulationTime s + delta\<rparr>
      in for_up 0 (real (POPULATION_SIZE cfg)) (\<lambda>r s.
           if m_inEvaluation (walker s (nat r))
           then set_walker (nat r) (update_walker cfg delta (walker s (nat r))) s
           else s) s1)"

text \<open>
  The two halves of the scheduling loop's body, for slot \<open>i\<close>. \<^verbatim>\<open>REBUILD_WALKER\<close> is
  \<^verbatim>\<open>true\<close> in the file: an evaluation starts on a walker rebuilt by \<^verbatim>\<open>resetWalkerAt\<close>, and
  the branch for \<^verbatim>\<open>false\<close> is not embedded.
\<close>

definition tear_down :: "config \<Rightarrow> int \<Rightarrow> NN3DWalkersExample \<Rightarrow> NN3DWalkersExample" where
  "tear_down cfg i s =
     (let w = walker s (nat i)
      in if m_inEvaluation w \<and> EVALUATION_DURATION cfg \<le> m_evaluationTime w
         then (let s1 = b3Printf (EvaluationFinished (m_SimulationTime s) (sqrt (getDistanceFitness w))) s;
                   s2 = set_walker (nat i) (w\<lparr>m_inEvaluation := False\<rparr>) s1
               in s2\<lparr>m_walkersInEvaluation := m_walkersInEvaluation s2 - 1\<rparr>)
         else s)"

definition set_up :: "config \<Rightarrow> (nat \<Rightarrow> nat) \<Rightarrow> int \<Rightarrow> NN3DWalkersExample \<Rightarrow> NN3DWalkersExample" where
  "set_up cfg rnd i s =
     (let w = walker s (nat i)
      in if real_of_int (m_walkersInEvaluation s) < gParallelEvaluations cfg
            \<and> \<not> m_inEvaluation w \<and> m_evaluationTime w = 0
         then (let s1 = b3Printf (EvaluationStarted (m_SimulationTime s)) s;
                   s2 = s1\<lparr>m_walkersInEvaluation := m_walkersInEvaluation s1 + 1\<rparr>;
                   s3 = resetWalkerAt rnd i (m_resetPosition s2) s2
               in set_walker (nat i) ((walker s3 (nat i))\<lparr>m_inEvaluation := True\<rparr>) s3)
         else s)"

definition schedule_loop :: "config \<Rightarrow> (nat \<Rightarrow> nat) \<Rightarrow> NN3DWalkersExample \<Rightarrow> NN3DWalkersExample" where
  "schedule_loop cfg rnd =
     for_up 0 (real (POPULATION_SIZE cfg)) (\<lambda>i s. set_up cfg rnd i (tear_down cfg i s))"

subsection \<open>Ranking\<close>

definition fitnessComparator :: "NNWalker \<Rightarrow> NNWalker \<Rightarrow> bool" where
  "fitnessComparator a b \<longleftrightarrow> getFitness b < getFitness a"

text \<open>
  Modelled from the spec: \<^verbatim>\<open>btAlignedObjectArray::quickSort\<close>, declared in
  \<^verbatim>\<open>LinearMath/btAlignedObjectArray.h\<close>, outside the file embedded here. The
  specification asks for a sort of the whole population by the comparator that keeps the
  slot order of walkers the comparator does not separate (a stable sort): each walker is
  inserted in front of the first walker that is not strictly ahead of it.
\<close>

fun insert_ranked :: "('a \<Rightarrow> 'a \<Rightarrow> bool) \<Rightarrow> 'a \<Rightarrow> 'a list \<Rightarrow> 'a list" where
  "insert_ranked cmp x [] = [x]"
| "insert_ranked cmp x (y # ys) = (if cmp y x then y # insert_ranked cmp x ys else x # y # ys)"

definition quickSort :: "('a \<Rightarrow> 'a \<Rightarrow> bool) \<Rightarrow> 'a list \<Rightarrow> 'a list" where
  \<comment> \<open>Modelled from the spec: the stable sort the specification requires of the ranking\<close>
  "quickSort cmp xs = foldr (insert_ranked cmp) xs []"

definition rateEvaluations :: "config \<Rightarrow> NN3DWalkersExample \<Rightarrow> error + NN3DWalkersExample" where
  "rateEvaluations cfg s =
     (let s1 = s\<lparr>m_walkersInPopulation := quickSort fitnessComparator (m_walkersInPopulation s)\<rparr>
      in bindE (slot_at (m_walkersInPopulation s1) 0) (\<lambda>k.
           let best = sqrt (getDistanceFitness (walker s1 k));
               s2 = b3Printf (BestPerformingWalker best) s1;
               s3 = (if real_of_int (int (POPULATION_SIZE cfg) - 1) * (1 - REAP_QTY cfg) \<noteq> 0
                        \<and> best < m_bestWalkerFitness s2
                     then b3Printf NotDeterministic s2
                     else s2\<lparr>m_bestWalkerFitness := best\<rparr>);
               s4 = for_up 0 (real (POPULATION_SIZE cfg)) (\<lambda>i s.
                      set_walker (nat i) ((walker s (nat i))\<lparr>m_evaluationTime := 0\<rparr>) s) s3
           in Inr (s4\<lparr>m_nextReapedIndex := 0\<rparr>)))"

subsection \<open>Reaping and sowing\<close>

text \<open>
  The loop bounds and subscripts of \<^verbatim>\<open>reap\<close>, \<^verbatim>\<open>getNextReaped\<close> and \<^verbatim>\<open>sow\<close> are products of
  the population size and the fractions; they are computed exactly here and in single
  precision in the file. For the population size and the fractions of the file the two
  select the same iterations (the bounds are 34.3, 10, 35 and 4.9 here and 34.2999992,
  10, 35 and 4.9000006 there), and so they do for a population of four (2.1, 0.8, 2.8
  and 0.3 against 2.0999999, 0.8, 2.8 and 0.3). For other sizes they need not:
  \<^verbatim>\<open>0.3f - 0.2f\<close> exceeds a tenth, so for a population of 11 the last loop of \<^verbatim>\<open>sow\<close> runs
  twice in the file and once here. The statements about \<^verbatim>\<open>reap\<close> and \<^verbatim>\<open>sow\<close> are made for
  the two sizes named, with the fractions of the file.
\<close>

definition reap :: "config \<Rightarrow> NN3DWalkersExample \<Rightarrow> error + NN3DWalkersExample" where
  "reap cfg s =
     bindE (for_downE (int (POPULATION_SIZE cfg) - 1)
              (real_of_int (int (POPULATION_SIZE cfg) - 1) * (1 - REAP_QTY cfg))
              (\<lambda>i (reaped, s).
                 bindE (slot_at (m_walkersInPopulation s) i) (\<lambda>k.
                   Inr (reaped + 1, set_walker k ((walker s k)\<lparr>m_reaped := True\<rparr>) s)))
              (0, s))
       (\<lambda>(reaped, s'). Inr (b3Printf (WalkersReaped reaped) s'))"

definition getRandomElite :: "config \<Rightarrow> (nat \<Rightarrow> nat) \<Rightarrow> NN3DWalkersExample \<Rightarrow> error + nat \<times> NN3DWalkersExample" where
  "getRandomElite cfg rnd s =
     (let q = rand_quot rnd (randCalls s);
          s1 = s\<lparr>randCalls := randCalls s + 1\<rparr>
      in bindE (slot_at (m_walkersInPopulation s1)
                  (trunc ((real_of_int (int (POPULATION_SIZE cfg) - 1) * SOW_ELITE_QTY cfg) * real q)))
           (\<lambda>k. Inr (k, s1)))"

definition getRandomNonElite :: "config \<Rightarrow> (nat \<Rightarrow> nat) \<Rightarrow> NN3DWalkersExample \<Rightarrow> error + nat \<times> NN3DWalkersExample" where
  "getRandomNonElite cfg rnd s =
     (let q = rand_quot rnd (randCalls s);
          s1 = s\<lparr>randCalls := randCalls s + 1\<rparr>
      in bindE (slot_at (m_walkersInPopulation s1)
                  (trunc (real_of_int (int (POPULATION_SIZE cfg) - 1) * SOW_ELITE_QTY cfg
                          + real_of_int (int (POPULATION_SIZE cfg) - 1) * (1 - SOW_ELITE_QTY cfg) * real q)))
           (\<lambda>k. Inr (k, s1)))"

definition getNextReaped :: "config \<Rightarrow> NN3DWalkersExample \<Rightarrow> error + nat option \<times> NN3DWalkersExample" where
  "getNextReaped cfg s =
     (let s1 = (if real_of_int (int (POPULATION_SIZE cfg) - 1) * (1 - REAP_QTY cfg)
                     \<le> real_of_int ((int (POPULATION_SIZE cfg) - 1) - m_nextReapedIndex s)
                then s\<lparr>m_nextReapedIndex := m_nextReapedIndex s + 1\<rparr>
                else s)
      in bindE (slot_at (m_walkersInPopulation s1)
                  ((int (POPULATION_SIZE cfg) - 1) - m_nextReapedIndex s1 + 1))
           (\<lambda>k. if m_reaped (walker s1 k) then Inr (Some k, s1) else Inr (None, s1)))"

definition set_weight :: "nat \<Rightarrow> nat \<Rightarrow> real \<Rightarrow> NN3DWalkersExample \<Rightarrow> NN3DWalkersExample" where
  \<comment> \<open>\<^verbatim>\<open>walker->getSensoryMotorWeights()[i] = v\<close> for the walker in slot \<open>k\<close>\<close>
  "set_weight k i v s =
     set_walker k ((walker s k)\<lparr>m_sensoryMotorWeights := (m_sensoryMotorWeights (walker s k))[i := v]\<rparr>) s"

definition crossover :: "(nat \<Rightarrow> nat) \<Rightarrow> nat \<Rightarrow> nat \<Rightarrow> nat option \<Rightarrow> NN3DWalkersExample \<Rightarrow> error + NN3DWalkersExample" where
  "crossover rnd mother father child s =
     for_upE 0 (real (BODYPART_COUNT * JOINT_COUNT)) (\<lambda>i s.
       let random = rand_unit rnd (randCalls s);
           s1 = s\<lparr>randCalls := randCalls s + 1\<rparr>
       in case child of
            None \<Rightarrow> Inl NullPointer
          | Some c \<Rightarrow>
              if 5 / 10 \<le> random
              then Inr (set_weight c (nat i) (m_sensoryMotorWeights (walker s1 mother) ! nat i) s1)
              else Inr (set_weight c (nat i) (m_sensoryMotorWeights (walker s1 father) ! nat i) s1)) s"

definition mutate :: "(nat \<Rightarrow> nat) \<Rightarrow> nat \<Rightarrow> real \<Rightarrow> NN3DWalkersExample \<Rightarrow> NN3DWalkersExample" where
  "mutate rnd mutant mutationRate =
     for_up 0 (real (BODYPART_COUNT * JOINT_COUNT)) (\<lambda>i s.
       let random = rand_unit rnd (randCalls s);
           s1 = s\<lparr>randCalls := randCalls s + 1\<rparr>
       in if mutationRate \<le> random
          then set_weight mutant (nat i) (rand_weight rnd (randCalls s1)) (s1\<lparr>randCalls := randCalls s1 + 1\<rparr>)
          else s1)"

definition mutation_rate :: "config \<Rightarrow> int \<Rightarrow> real" where
  \<comment> \<open>\<^verbatim>\<open>MUTATION_RATE / (POPULATION_SIZE * SOW_MUTATION_QTY) * (i-POPULATION_SIZE*SOW_ELITE_QTY)\<close>\<close>
  "mutation_rate cfg i =
     MUTATION_RATE cfg / (real (POPULATION_SIZE cfg) * SOW_MUTATION_QTY cfg)
       * (real_of_int i - real (POPULATION_SIZE cfg) * SOW_ELITE_QTY cfg)"

text \<open>The three loops of \<^verbatim>\<open>sow\<close>; the first and the last carry the local counter \<open>sow\<close>.\<close>

definition sow_crossover :: "config \<Rightarrow> (nat \<Rightarrow> nat) \<Rightarrow> int \<times> NN3DWalkersExample \<Rightarrow> error + int \<times> NN3DWalkersExample" where
  "sow_crossover cfg rnd =
     for_upE 0 (real (POPULATION_SIZE cfg) * SOW_CROSSOVER_QTY cfg) (\<lambda>i (sow, s).
       bindE (getRandomElite cfg rnd s) (\<lambda>(mother, s1).
       let q = rand_quot rnd (randCalls s1);
           s2 = s1\<lparr>randCalls := randCalls s1 + 1\<rparr>
       in bindE (if SOW_ELITE_PARTNER cfg < real q then getRandomElite cfg rnd s2
                 else getRandomNonElite cfg rnd s2) (\<lambda>(father, s3).
          bindE (getNextReaped cfg s3) (\<lambda>(offspring, s4).
          bindE (crossover rnd mother father offspring s4) (\<lambda>s5. Inr (sow + 1, s5))))))"

definition sow_mutants :: "config \<Rightarrow> (nat \<Rightarrow> nat) \<Rightarrow> NN3DWalkersExample \<Rightarrow> error + NN3DWalkersExample" where
  "sow_mutants cfg rnd =
     for_upE (trunc (real (POPULATION_SIZE cfg) * SOW_ELITE_QTY cfg))
       (real (POPULATION_SIZE cfg) * (SOW_ELITE_QTY cfg + SOW_MUTATION_QTY cfg)) (\<lambda>i s.
       bindE (slot_at (m_walkersInPopulation s) i) (\<lambda>k.
         Inr (mutate rnd k (mutation_rate cfg i) s)))"

definition sow_random :: "config \<Rightarrow> (nat \<Rightarrow> nat) \<Rightarrow> int \<times> NN3DWalkersExample \<Rightarrow> error + int \<times> NN3DWalkersExample" where
  "sow_random cfg rnd =
     for_upE 0 (real_of_int (int (POPULATION_SIZE cfg) - 1) * (REAP_QTY cfg - SOW_CROSSOVER_QTY cfg))
       (\<lambda>i (sow, s).
          bindE (getNextReaped cfg s) (\<lambda>(reaped, s1).
            case reaped of
              None \<Rightarrow> Inl NullPointer
            | Some k \<Rightarrow>
                (let s2 = set_walker k ((walker s1 k)\<lparr>m_reaped := False\<rparr>) s1;
                     (ws, n) = randomizeSensoryMotorWeights rnd
                                 (m_sensoryMotorWeights (walker s2 k), randCalls s2)
                 in Inr (sow + 1,
                      set_walker k ((walker s2 k)\<lparr>m_sensoryMotorWeights := ws\<rparr>) (s2\<lparr>randCalls := n\<rparr>)))))"

definition sow :: "config \<Rightarrow> (nat \<Rightarrow> nat) \<Rightarrow> NN3DWalkersExample \<Rightarrow> error + NN3DWalkersExample" where
  "sow cfg rnd s =
     bindE (sow_crossover cfg rnd (0, s)) (\<lambda>(sow1, s1).
     bindE (sow_mutants cfg rnd s1) (\<lambda>s2.
     bindE (sow_random cfg rnd (sow1, s2)) (\<lambda>(sow2, s3).
     Inr (b3Printf (WalkersSown sow2) s3))))"

subsection \<open>The scheduler and the update cycle\<close>

definition scheduleEvaluations :: "config \<Rightarrow> (nat \<Rightarrow> nat) \<Rightarrow> NN3DWalkersExample \<Rightarrow> error + NN3DWalkersExample" where
  "scheduleEvaluations cfg rnd s =
     (let s1 = schedule_loop cfg rnd s
      in if m_walkersInEvaluation s1 = 0
         then bindE (rateEvaluations cfg s1) (\<lambda>s2.
              bindE (reap cfg s2) (\<lambda>s3.
              bindE (sow cfg rnd s3) (\<lambda>s4.
              Inr (b3Printf NewGeneration s4))))
         else Inr s1)"

definition update :: "config \<Rightarrow> (nat \<Rightarrow> nat) \<Rightarrow> real \<Rightarrow> NN3DWalkersExample \<Rightarrow> error + NN3DWalkersExample" where
  "update cfg rnd timeSinceLastTick s =
     bindE (scheduleEvaluations cfg rnd (updateEvaluations cfg timeSinceLastTick s)) (\<lambda>s1.
       if m_LastSpeedupPrintTimestamp s1 + TIMESTAMP_TIME cfg < m_SimulationTime s1
       then Inr ((b3Printf AvgEffectiveSpeedup s1)\<lparr>m_LastSpeedupPrintTimestamp := m_SimulationTime s1\<rparr>)
       else Inr s1)"

text \<open>
  Modelled from the spec: the dynamics world (\<^verbatim>\<open>btDynamicsWorld::stepSimulation\<close>), the
  external collaborator of the file. Between two calls of the pre-tick callback it moves
  the bodies of a walker, turns its hinges and reports contacts through
  \<^verbatim>\<open>legContactProcessedCallback\<close>, which sets the touch sensor of each touching body; it
  changes nothing else. \<open>world k\<close> gives, for the walker in slot \<open>k\<close>, the new centres of
  mass, the new hinge angles and the bodies in contact.
\<close>

definition moved :: "btVector3 list \<times> real list \<times> nat list \<Rightarrow> NNWalker \<Rightarrow> NNWalker" where
  "moved e w =
     (case e of (bodies, angles, touching) \<Rightarrow>
        fold setTouchSensor touching
          (w\<lparr>m_bodies := bodies,
             m_joints := map (\<lambda>(hingeC, a). hingeC\<lparr>m_hingeAngle := a\<rparr>) (zip (m_joints w) angles)\<rparr>))"

definition stepSimulation :: "(nat \<Rightarrow> btVector3 list \<times> real list \<times> nat list) \<Rightarrow> NN3DWalkersExample \<Rightarrow> NN3DWalkersExample" where
  "stepSimulation world s =
     s\<lparr>m_walkersInPopulation :=
         map (\<lambda>(k, w). moved (world k) w)
           (zip [0..<length (m_walkersInPopulation s)] (m_walkersInPopulation s))\<rparr>"

text \<open>
  The sliders \<^verbatim>\<open>initPhysics\<close> registers on the tunables the functions above read, with their
  ranges. The slider of the parallel evaluations is there when the population has more
  than one walker; its callback \<^verbatim>\<open>floorNNSliderValue\<close> floors the value. The sliders on the
  body dimensions are left out: a walker is built with the dimensions the file starts with.
\<close>

datatype slider = MotorUpdateFrequency real | MotorForce real | ParallelEvaluations real

fun in_range :: "config \<Rightarrow> slider \<Rightarrow> bool" where
  "in_range cfg (MotorUpdateFrequency v) \<longleftrightarrow> 0 \<le> v \<and> v \<le> 10"
| "in_range cfg (MotorForce v) \<longleftrightarrow> 1 \<le> v \<and> v \<le> 50"
| "in_range cfg (ParallelEvaluations v) \<longleftrightarrow>
     1 < POPULATION_SIZE cfg \<and> 1 \<le> v \<and> v \<le> real (POPULATION_SIZE cfg)"

fun move_slider :: "slider \<Rightarrow> config \<Rightarrow> config" where
  "move_slider (MotorUpdateFrequency v) cfg = cfg\<lparr>gWalkerLegTargetFrequency := v\<rparr>"
| "move_slider (MotorForce v) cfg = cfg\<lparr>gWalkerMotorStrength := v\<rparr>"
| "move_slider (ParallelEvaluations v) cfg = cfg\<lparr>gParallelEvaluations := real_of_int \<lfloor>v\<rfloor>\<rparr>"

text \<open>
  The states of a run: start-up, then pre-tick callbacks, steps of the dynamics world and
  moves of a slider in any order. \<open>reachable rnd past cfg s\<close>: the run has reached the
  state \<open>s\<close> with the configuration \<open>cfg\<close> in force, and \<open>past\<close> lists the configurations
  that were in force before, the latest first. A run may start from any configuration;
  the values \<^verbatim>\<open>initPhysics\<close> gives the two motor tunables are those of \<open>default_config\<close>.
\<close>

inductive reachable :: "(nat \<Rightarrow> nat) \<Rightarrow> config list \<Rightarrow> config \<Rightarrow> NN3DWalkersExample \<Rightarrow> bool"
  for rnd :: "nat \<Rightarrow> nat" where
  start: "reachable rnd [] cfg (initPhysics cfg rnd)"
| tick: "reachable rnd past cfg s \<Longrightarrow> update cfg rnd timeSinceLastTick s = Inr s'
           \<Longrightarrow> reachable rnd past cfg s'"
| world: "reachable rnd past cfg s \<Longrightarrow> reachable rnd past cfg (stepSimulation world s)"
| slider: "reachable rnd past cfg s \<Longrightarrow> in_range cfg sl
           \<Longrightarrow> reachable rnd (cfg # past) (move_slider sl cfg) s"

section \<open>Notions used in the statements and proofs\<close>

subsection \<open>The controller as the specification words it\<close>

text \<open>
  The weighted sum of all sensors for joint \<open>j\<close>, \<open>raw(j) = \<Sum> W[sensor][j] * S[sensor]\<close>,
  with the layout \<^verbatim>\<open>randomizeSensoryMotorWeights\<close> gives the weight array (sensor index
  plus \<open>BODYPART_COUNT\<close> times joint index). It is compared with \<open>summate_inputs\<close>.
\<close>

definition spec_raw :: "NNWalker \<Rightarrow> nat \<Rightarrow> real" where
  "spec_raw w j =
     sum_list (map (\<lambda>sensor. m_sensoryMotorWeights w ! (sensor + j * BODYPART_COUNT)
                               * of_bool (m_touchSensors w ! sensor)) [0..<BODYPART_COUNT])"

subsection \<open>Sample inputs\<close>

text \<open>
  A walker under evaluation whose weights are all 1 and whose bodies all touch something,
  except the root body; and a population of fifty walkers with weights one half, all idle.
\<close>

definition touching_walker :: NNWalker where
  "touching_walker =
     \<lparr> m_bodies = replicate 13 (0, 0, 0),
       m_joints = concat (replicate 6 [hip_joint, knee_joint]),
       m_touchSensors = False # replicate 12 True,
       m_sensoryMotorWeights = replicate 156 1,
       m_inEvaluation = True, m_evaluationTime = 0, m_reaped = False,
       m_startPosition = (0, 0, 0), m_index = 0, m_legUpdateAccumulator = 0 \<rparr>"

definition sample_walker :: NNWalker where
  "sample_walker =
     \<lparr> m_bodies = replicate 13 (0, 0, 0),
       m_joints = concat (replicate 6 [hip_joint, knee_joint]),
       m_touchSensors = replicate 13 False,
       m_sensoryMotorWeights = replicate 156 (1 / 2),
       m_inEvaluation = False, m_evaluationTime = 0, m_reaped = False,
       m_startPosition = (0, 0, 0), m_index = 0, m_legUpdateAccumulator = 0 \<rparr>"

definition sample_population :: NN3DWalkersExample where
  "sample_population = NN3DWalkersExample_new\<lparr>m_walkersInPopulation := replicate 50 sample_walker\<rparr>"

subsection \<open>Configurations\<close>

text \<open>
  A configuration the specification calls malformed: the three fractions of the population
  (elite, mutated, reaped) do not add up to the whole, which the file's comment writes
  \<^verbatim>\<open>SOW_ELITE_QTY + SOW_MUTATION_QTY + REAP_QTY = 1\<close>, or the bound on parallel evaluations
  is not positive. \<open>default_quotas\<close> holds of a configuration with the population size and
  the fractions of the file.
\<close>

definition malformed :: "config \<Rightarrow> bool" where
  "malformed cfg \<longleftrightarrow>
     SOW_ELITE_QTY cfg + SOW_MUTATION_QTY cfg + REAP_QTY cfg \<noteq> 1 \<or> gParallelEvaluations cfg \<le> 0"

definition default_quotas :: "config \<Rightarrow> bool" where
  "default_quotas cfg \<longleftrightarrow>
     POPULATION_SIZE cfg = 50 \<and> REAP_QTY cfg = 3 / 10 \<and> SOW_CROSSOVER_QTY cfg = 2 / 10
     \<and> SOW_ELITE_QTY cfg = 2 / 10 \<and> SOW_MUTATION_QTY cfg = 5 / 10"

subsection \<open>The scheduler's view of a state\<close>

text \<open>
  The scheduler reads two fields of a walker, whether it is under evaluation and its
  evaluation time, and the counter \<open>m_walkersInEvaluation\<close>. \<open>slot_step\<close> is the body of
  the scheduling loop on this view, \<open>advance\<close> what \<^verbatim>\<open>updateEvaluations\<close> does to it.
\<close>

definition sched_view :: "NNWalker \<Rightarrow> bool \<times> real" where
  "sched_view w = (m_inEvaluation w, m_evaluationTime w)"

definition view :: "NN3DWalkersExample \<Rightarrow> int \<times> (bool \<times> real) list" where
  "view s = (m_walkersInEvaluation s, map sched_view (m_walkersInPopulation s))"

definition slot_step :: "config \<Rightarrow> nat \<Rightarrow> int \<times> (bool \<times> real) list \<Rightarrow> int \<times> (bool \<times> real) list" where
  "slot_step cfg k cv =
     (case cv of (c, vs) \<Rightarrow>
        (let e = fst (vs ! k); t = snd (vs ! k);
             finished = (e \<and> EVALUATION_DURATION cfg \<le> t);
             c1 = (if finished then c - 1 else c);
             e1 = (e \<and> \<not> finished)
         in if real_of_int c1 < gParallelEvaluations cfg \<and> \<not> e1 \<and> t = 0
            then (c1 + 1, vs[k := (True, 0)])
            else (c1, vs[k := (e1, t)])))"

definition advance :: "real \<Rightarrow> bool \<times> real \<Rightarrow> bool \<times> real" where
  "advance d v = (if fst v then (True, snd v + d) else v)"

text \<open>
  A walker is unstarted when it is idle with evaluation time 0. The invariants: the counter
  counts the walkers under evaluation; no unstarted walker sits in a slot before a walker
  under evaluation; an idle walker is unstarted or has run for the full duration.
\<close>

definition unstarted :: "bool \<times> real \<Rightarrow> bool" where
  "unstarted v \<longleftrightarrow> \<not> fst v \<and> snd v = 0"

definition counted :: "int \<times> (bool \<times> real) list \<Rightarrow> bool" where
  "counted cv \<longleftrightarrow> fst cv = int (length (filter fst (snd cv)))"

definition ordered :: "(bool \<times> real) list \<Rightarrow> bool" where
  "ordered vs \<longleftrightarrow> (\<forall>i j. i < j \<and> j < length vs \<and> fst (vs ! j) \<longrightarrow> \<not> unstarted (vs ! i))"

definition settled :: "config \<Rightarrow> (bool \<times> real) list \<Rightarrow> bool" where
  "settled cfg vs \<longleftrightarrow> (\<forall>v\<in>set vs. \<not> fst v \<longrightarrow> snd v = 0 \<or> EVALUATION_DURATION cfg \<le> snd v)"

definition count_inv :: "config \<Rightarrow> NN3DWalkersExample \<Rightarrow> bool" where
  "count_inv cfg s \<longleftrightarrow>
     length (m_walkersInPopulation s) = POPULATION_SIZE cfg \<and> counted (view s)"

definition sched_inv :: "config \<Rightarrow> NN3DWalkersExample \<Rightarrow> bool" where
  "sched_inv cfg s \<longleftrightarrow>
     count_inv cfg s \<and> ordered (snd (view s)) \<and> settled cfg (snd (view s))"

text \<open>The number of generations announced on the console so far.\<close>

definition generations :: "NN3DWalkersExample \<Rightarrow> nat" where
  "generations s = count_list (console s) NewGeneration"

definition obs :: "NN3DWalkersExample \<Rightarrow> (int \<times> (bool \<times> real) list) \<times> nat" where
  "obs s = (view s, generations s)"

subsection \<open>Ranking order and frames\<close>

text \<open>
  \<open>ranks_before a b\<close>: \<open>a\<close> is fitter than \<open>b\<close>, or as fit and from a lower slot.
  \<open>agree P s t\<close>: the state \<open>t\<close> has the walkers of \<open>s\<close> in the slots \<open>P\<close> selects, and
  the same console.
\<close>

definition ranks_before :: "NNWalker \<Rightarrow> NNWalker \<Rightarrow> bool" where
  "ranks_before a b \<longleftrightarrow>
     getFitness b < getFitness a \<or> (getFitness a = getFitness b \<and> m_index a < m_index b)"

definition mark_reaped :: "NNWalker \<Rightarrow> NNWalker" where
  "mark_reaped w = w\<lparr>m_reaped := True\<rparr>"

definition agree :: "(nat \<Rightarrow> bool) \<Rightarrow> NN3DWalkersExample \<Rightarrow> NN3DWalkersExample \<Rightarrow> bool" where
  "agree P s t \<longleftrightarrow>
     length (m_walkersInPopulation t) = length (m_walkersInPopulation s)
     \<and> (\<forall>k. P k \<longrightarrow> walker t k = walker s k)
     \<and> console t = console s"

subsection \<open>Further sample inputs\<close>

text \<open>The source on which every \<^verbatim>\<open>rand()\<close> call returns 0.\<close>

definition zero_source :: "nat \<Rightarrow> nat" where
  "zero_source n = 0"

text \<open>The sample population after a contact on body part 1 of slot 0 while that walker is
  under evaluation.\<close>

definition touched_population :: NN3DWalkersExample where
  "touched_population =
     (set_walker 0 (setTouchSensor 1 (sample_walker\<lparr>m_inEvaluation := True\<rparr>)) sample_population)
       \<lparr>m_walkersInEvaluation := 1\<rparr>"

text \<open>
  The sample walker in slot \<open>i\<close> after all its bodies have moved to \<open>(d, 0, 0)\<close>, and a
  population of three: the walker in slot 0 has not moved, those in slots 1 and 2 have
  moved as far as each other.
\<close>

definition moved_walker :: "int \<Rightarrow> real \<Rightarrow> NNWalker" where
  "moved_walker i d = sample_walker\<lparr>m_index := i, m_bodies := replicate 13 (d, 0, 0)\<rparr>"

definition three_walkers :: NN3DWalkersExample where
  "three_walkers =
     NN3DWalkersExample_new\<lparr>m_walkersInPopulation := [moved_walker 0 0, moved_walker 1 1, moved_walker 2 1]\<rparr>"

text \<open>
  A population of four as it is ranked, and with slot 3 reaped, which is what \<^verbatim>\<open>reap\<close> makes
  of it. \<open>weights_after_sow\<close> gives the weights in slot \<open>k\<close> after \<^verbatim>\<open>sow\<close>.
\<close>

definition four_ranked :: NN3DWalkersExample where
  "four_ranked =
     NN3DWalkersExample_new\<lparr>m_walkersInPopulation :=
       [sample_walker, sample_walker\<lparr>m_index := 1\<rparr>, sample_walker\<lparr>m_index := 2\<rparr>,
        sample_walker\<lparr>m_index := 3\<rparr>]\<rparr>"

definition four_reaped :: NN3DWalkersExample where
  "four_reaped =
     b3Printf (WalkersReaped 1)
       (set_walker 3 (sample_walker\<lparr>m_index := 3, m_reaped := True\<rparr>) four_ranked)"

definition weights_after_sow :: "config \<Rightarrow> (nat \<Rightarrow> nat) \<Rightarrow> NN3DWalkersExample \<Rightarrow> nat \<Rightarrow> error + real list" where
  "weights_after_sow cfg rnd s k =
     bindE (sow cfg rnd s) (\<lambda>sown. Inr (m_sensoryMotorWeights (walker sown k)))"

text \<open>
  The default configuration with its population size, its evaluation duration, its
  parallelism or one of its sowing fractions changed; and with the slider of the parallel
  evaluations moved to 1, or to 50 when an evaluation lasts a sixtieth of a second.
\<close>

definition three_slots :: config where
  "three_slots = default_config\<lparr>POPULATION_SIZE := 3\<rparr>"

definition four_slots :: config where
  "four_slots = default_config\<lparr>POPULATION_SIZE := 4\<rparr>"

definition no_parallelism :: config where
  "no_parallelism = default_config\<lparr>gParallelEvaluations := 0\<rparr>"

definition excess_fractions :: config where
  "excess_fractions = default_config\<lparr>SOW_MUTATION_QTY := 9 / 10\<rparr>"

definition quick_rounds :: config where
  "quick_rounds = default_config\<lparr>EVALUATION_DURATION := 1 / 60\<rparr>"

definition all_at_once :: config where
  "all_at_once = move_slider (ParallelEvaluations 50) quick_rounds"

definition one_at_a_time :: config where
  "one_at_a_time = move_slider (ParallelEvaluations 1) default_config"

text \<open>
  The state after the first pre-tick callback of a run, a sixtieth of a second long, on
  the random source \<open>zero_source\<close>.
\<close>

definition after_first_tick :: "config \<Rightarrow> NN3DWalkersExample" where
  "after_first_tick cfg =
     schedule_loop cfg zero_source (updateEvaluations cfg (1 / 60) (initPhysics cfg zero_source))"

section \<open>Loops\<close>


declare for_up.simps [simp del] for_upE.simps [simp del] for_downE.simps [simp del]

lemma for_up_upto: "for_up i b body s = fold body [i..\<lceil>b\<rceil> - 1] s"
proof (induction i b body s rule: for_up.induct)
  case (1 i b body s)
  show ?case
  proof (cases "real_of_int i < b")
    case True
    then have le: "i \<le> \<lceil>b\<rceil> - 1" by (simp add: less_ceiling_iff)
    have "for_up i b body s = for_up (i + 1) b body (body i s)"
      using True by (subst for_up.simps) simp
    also have "\<dots> = fold body [i + 1..\<lceil>b\<rceil> - 1] (body i s)"
      using 1 True by simp
    also have "\<dots> = fold body [i..\<lceil>b\<rceil> - 1] s"
      using le by (subst (2) upto_rec1) simp_all
    finally show ?thesis .
  next
    case False
    then have "\<not> i \<le> \<lceil>b\<rceil> - 1" by (simp add: less_ceiling_iff)
    then have "[i..\<lceil>b\<rceil> - 1] = []" by simp
    moreover have "for_up i b body s = s" using False by (subst for_up.simps) simp
    ultimately show ?thesis by simp
  qed
qed

lemma map_int_upt: "map int [0..<n] = [0..int n - 1]"
proof (induction n)
  case 0
  show ?case by simp
next
  case (Suc n)
  have "[0..int (Suc n) - 1] = [0..int n - 1] @ [int n]"
    using upto_rec2 [of 0 "int n"] by simp
  with Suc show ?case by simp
qed

lemma for_up_nat: "for_up 0 (real n) body s = fold (\<lambda>k. body (int k)) [0..<n] s"
proof -
  have "for_up 0 (real n) body s = fold body (map int [0..<n]) s"
    by (simp add: for_up_upto map_int_upt)
  then show ?thesis by (simp add: fold_map comp_def)
qed

lemma fold_upt_invariant:
  assumes "I 0 s" and "\<And>k t. k < n \<Longrightarrow> I k t \<Longrightarrow> I (Suc k) (f k t)"
  shows "I n (fold f [0..<n] s)"
  using assms
proof (induction n)
  case 0
  then show ?case by simp
next
  case (Suc n)
  then have "I n (fold f [0..<n] s)" by simp
  then show ?case using Suc.prems(2) [of n] by simp
qed

lemma for_upE_invariant:
  assumes "I i s"
    and "\<And>k t. i \<le> k \<Longrightarrow> real_of_int k < b \<Longrightarrow> I k t \<Longrightarrow> \<exists>t'. body k t = Inr t' \<and> I (k + 1) t'"
  shows "\<exists>t'. for_upE i b body s = Inr t' \<and> I (max i \<lceil>b\<rceil>) t'"
  using assms
proof (induction i b body s rule: for_upE.induct)
  case (1 i b body s)
  show ?case
  proof (cases "real_of_int i < b")
    case True
    then obtain t where t: "body i s = Inr t" "I (i + 1) t"
      using 1(2,3) by blast
    have "\<exists>t'. for_upE (i + 1) b body t = Inr t' \<and> I (max (i + 1) \<lceil>b\<rceil>) t'"
      using 1(1) [OF True t(1) t(2)] 1(3) by simp
    moreover have "max (i + 1) \<lceil>b\<rceil> = max i \<lceil>b\<rceil>"
    proof -
      have "i < \<lceil>b\<rceil>" using True by (simp add: less_ceiling_iff)
      then show ?thesis by linarith
    qed
    moreover have "for_upE i b body s = for_upE (i + 1) b body t"
      using True t(1) by (subst for_upE.simps) simp
    ultimately show ?thesis by simp
  next
    case False
    then have "\<not> i < \<lceil>b\<rceil>" by (simp add: less_ceiling_iff)
    then have "max i \<lceil>b\<rceil> = i" by linarith
    moreover have "for_upE i b body s = Inr s" using False by (subst for_upE.simps) simp
    ultimately show ?thesis using 1(2) by simp
  qed
qed

lemma for_upE_preserves:
  assumes "for_upE i b body s = Inr s'" and "P s"
    and "\<And>k t t'. P t \<Longrightarrow> body k t = Inr t' \<Longrightarrow> P t'"
  shows "P s'"
  using assms
proof (induction i b body s rule: for_upE.induct)
  case (1 i b body s)
  show ?case
  proof (cases "real_of_int i < b")
    case True
    show ?thesis
    proof (cases "body i s")
      case (Inl e)
      then have "for_upE i b body s = Inl e" using True by (subst for_upE.simps) simp
      then show ?thesis using 1(2) by simp
    next
      case (Inr t)
      then have "for_upE i b body s = for_upE (i + 1) b body t"
        using True by (subst for_upE.simps) simp
      then have "for_upE (i + 1) b body t = Inr s'" using 1(2) by simp
      moreover have "P t" using 1(3,4) Inr by blast
      ultimately show ?thesis using 1(1) [OF True Inr] 1(4) by blast
    qed
  next
    case False
    then have "for_upE i b body s = Inr s" by (subst for_upE.simps) simp
    then show ?thesis using 1(2,3) by simp
  qed
qed

lemma for_downE_invariant:
  assumes "I i s"
    and "\<And>k t. k \<le> i \<Longrightarrow> b \<le> real_of_int k \<Longrightarrow> I k t \<Longrightarrow> \<exists>t'. body k t = Inr t' \<and> I (k - 1) t'"
  shows "\<exists>t'. for_downE i b body s = Inr t' \<and> I (min i (\<lceil>b\<rceil> - 1)) t'"
  using assms
proof (induction i b body s rule: for_downE.induct)
  case (1 i b body s)
  show ?case
  proof (cases "b \<le> real_of_int i")
    case True
    then obtain t where t: "body i s = Inr t" "I (i - 1) t"
      using 1(2,3) by blast
    have "\<exists>t'. for_downE (i - 1) b body t = Inr t' \<and> I (min (i - 1) (\<lceil>b\<rceil> - 1)) t'"
      using 1(1) [OF True t(1) t(2)] 1(3) by simp
    moreover have "min (i - 1) (\<lceil>b\<rceil> - 1) = min i (\<lceil>b\<rceil> - 1)"
    proof -
      have "\<lceil>b\<rceil> \<le> i" using True by (simp add: ceiling_le_iff)
      then show ?thesis by linarith
    qed
    moreover have "for_downE i b body s = for_downE (i - 1) b body t"
      using True t(1) by (subst for_downE.simps) simp
    ultimately show ?thesis by simp
  next
    case False
    then have "\<not> \<lceil>b\<rceil> \<le> i" by (simp add: ceiling_le_iff)
    then have "min i (\<lceil>b\<rceil> - 1) = i" by linarith
    moreover have "for_downE i b body s = Inr s" using False by (subst for_downE.simps) simp
    ultimately show ?thesis using 1(2) by simp
  qed
qed

lemma for_downE_preserves:
  assumes "for_downE i b body s = Inr s'" and "P s"
    and "\<And>k t t'. P t \<Longrightarrow> body k t = Inr t' \<Longrightarrow> P t'"
  shows "P s'"
  using assms
proof (induction i b body s rule: for_downE.induct)
  case (1 i b body s)
  show ?case
  proof (cases "b \<le> real_of_int i")
    case True
    show ?thesis
    proof (cases "body i s")
      case (Inl e)
      then have "for_downE i b body s = Inl e" using True by (subst for_downE.simps) simp
      then show ?thesis using 1(2) by simp
    next
      case (Inr t)
      then have "for_downE i b body s = for_downE (i - 1) b body t"
        using True by (subst for_downE.simps) simp
      then have "for_downE (i - 1) b body t = Inr s'" using 1(2) by simp
      moreover have "P t" using 1(3,4) Inr by blast
      ultimately show ?thesis using 1(1) [OF True Inr] 1(4) by blast
    qed
  next
    case False
    then have "for_downE i b body s = Inr s" by (subst for_downE.simps) simp
    then show ?thesis using 1(2,3) by simp
  qed
qed

section \<open>The controller and the evaluation loop\<close>

lemma fold_add: "fold (\<lambda>k acc. acc + f k) ks (a::real) = a + sum_list (map f ks)"
  by (induction ks arbitrary: a) (simp_all add: add.assoc)

lemma summate_inputs_eq:
  "summate_inputs w i =
     sum_list (map (\<lambda>j. m_sensoryMotorWeights w ! nat (i + int j * int BODYPART_COUNT)
                          * of_bool (getTouchSensor w (nat i))) [0..<JOINT_COUNT])"
  by (simp add: summate_inputs_def for_up_nat fold_add)

lemma summate_inputs_untouched:
  assumes "\<not> getTouchSensor w (nat i)"
  shows "summate_inputs w i = 0"
  using assms by (simp add: summate_inputs_eq)

lemma fold_keeps:
  assumes "\<And>k t. g (f k t) = g t"
  shows "g (fold f ks s) = g s"
  using assms by (induction ks arbitrary: s) simp_all

lemma for_up_keeps:
  assumes "\<And>k t. g (body k t) = g t"
  shows "g (for_up i b body s) = g s"
  using assms by (simp add: for_up_upto fold_keeps)

lemma update_joint_frame:
  "m_touchSensors (update_joint cfg delta i w) = m_touchSensors w"
  "m_inEvaluation (update_joint cfg delta i w) = m_inEvaluation w"
  "m_evaluationTime (update_joint cfg delta i w) = m_evaluationTime w"
  "m_sensoryMotorWeights (update_joint cfg delta i w) = m_sensoryMotorWeights w"
  "m_legUpdateAccumulator (update_joint cfg delta i w) = m_legUpdateAccumulator w"
  "m_reaped (update_joint cfg delta i w) = m_reaped w"
  by (simp_all add: update_joint_def Let_def)

lemma update_walker_frame:
  "m_touchSensors (update_walker cfg delta w) = replicate BODYPART_COUNT False"
  "m_inEvaluation (update_walker cfg delta w) = m_inEvaluation w"
  "m_evaluationTime (update_walker cfg delta w) = m_evaluationTime w + delta"
  "m_sensoryMotorWeights (update_walker cfg delta w) = m_sensoryMotorWeights w"
  "m_reaped (update_walker cfg delta w) = m_reaped w"
  by (simp_all add: update_walker_def Let_def clearTouchSensors_def
        for_up_keeps [where g = m_inEvaluation] for_up_keeps [where g = m_evaluationTime]
        for_up_keeps [where g = m_sensoryMotorWeights] for_up_keeps [where g = m_reaped]
        update_joint_frame)

lemma update_slot_list:
  assumes "n < length ws"
  shows "(map f (take n ws) @ drop n ws)[n := f (ws ! n)] = map f (take (Suc n) ws) @ drop (Suc n) ws"
proof -
  have "drop n ws = ws ! n # drop (Suc n) ws"
    using assms by (simp add: Cons_nth_drop_Suc)
  then show ?thesis
    using assms by (simp add: take_Suc_conv_app_nth list_update_append)
qed

lemma fold_set_walker:
  assumes "n \<le> length (m_walkersInPopulation s)"
  shows "fold (\<lambda>k t. set_walker k (f (walker t k)) t) [0..<n] s
           = s\<lparr>m_walkersInPopulation :=
                 map f (take n (m_walkersInPopulation s)) @ drop n (m_walkersInPopulation s)\<rparr>"
  using assms
proof (induction n)
  case 0
  then show ?case by simp
next
  case (Suc n)
  then have n: "n < length (m_walkersInPopulation s)" by simp
  have "(map f (take n (m_walkersInPopulation s)) @ drop n (m_walkersInPopulation s)) ! n
          = m_walkersInPopulation s ! n"
    using n by (simp add: nth_append)
  then show ?case
    using Suc n by (simp add: set_walker_def walker_def update_slot_list)
qed

lemma updateEvaluations_eq:
  assumes "length (m_walkersInPopulation s) = POPULATION_SIZE cfg"
  shows "updateEvaluations cfg dt s
           = s\<lparr>m_SimulationTime := m_SimulationTime s + (if 1 / 60 < dt then 1 / 60 else dt),
                m_walkersInPopulation :=
                  map (\<lambda>w. if m_inEvaluation w
                            then update_walker cfg (if 1 / 60 < dt then 1 / 60 else dt) w else w)
                    (m_walkersInPopulation s)\<rparr>"
proof -
  let ?d = "if 1 / 60 < dt then 1 / 60 else dt"
  let ?f = "\<lambda>w. if m_inEvaluation w then update_walker cfg ?d w else w"
  have body: "(\<lambda>r t. if m_inEvaluation (walker t (nat (int r)))
                      then set_walker (nat (int r)) (update_walker cfg ?d (walker t (nat (int r)))) t
                      else t)
               = (\<lambda>k t. set_walker k (?f (walker t k)) t)"
    by (intro ext) (simp add: set_walker_def walker_def)
  show ?thesis
    unfolding updateEvaluations_def Let_def for_up_nat body
    using assms by (subst fold_set_walker) simp_all
qed

section \<open>The scheduling loop on the scheduler's view\<close>

lemma NNWalker_new_fields:
  "m_inEvaluation (fst (NNWalker_new i p rnd n)) = False"
  "m_evaluationTime (fst (NNWalker_new i p rnd n)) = 0"
  "m_reaped (fst (NNWalker_new i p rnd n)) = False"
  "m_touchSensors (fst (NNWalker_new i p rnd n)) = replicate BODYPART_COUNT False"
  by (simp_all add: NNWalker_new_def split_beta)

lemma view_b3Printf [simp]: "view (b3Printf m s) = view s"
  by (simp add: view_def b3Printf_def)

lemma tear_down_view:
  assumes "k < length (m_walkersInPopulation s)"
  shows "view (tear_down cfg (int k) s)
           = (if fst (snd (view s) ! k) \<and> EVALUATION_DURATION cfg \<le> snd (snd (view s) ! k)
              then (fst (view s) - 1, (snd (view s))[k := (False, snd (snd (view s) ! k))])
              else view s)"
  using assms
  by (simp add: tear_down_def Let_def view_def set_walker_def walker_def b3Printf_def
        sched_view_def map_update)

lemma set_up_view:
  assumes "k < length (m_walkersInPopulation s)"
  shows "view (set_up cfg rnd (int k) s)
           = (if real_of_int (fst (view s)) < gParallelEvaluations cfg
                 \<and> \<not> fst (snd (view s) ! k) \<and> snd (snd (view s) ! k) = 0
              then (fst (view s) + 1, (snd (view s))[k := (True, 0)])
              else view s)"
  using assms
  by (simp add: set_up_def Let_def view_def set_walker_def walker_def b3Printf_def
        resetWalkerAt_def split_beta sched_view_def map_update NNWalker_new_fields)

lemma length_view: "length (snd (view s)) = length (m_walkersInPopulation s)"
  by (simp add: view_def)

lemma list_update_known: "vs ! k = v \<Longrightarrow> vs[k := v] = vs"
  by auto

lemma slot_view:
  assumes "k < length (m_walkersInPopulation s)"
  shows "view (set_up cfg rnd (int k) (tear_down cfg (int k) s)) = slot_step cfg k (view s)"
proof -
  have len: "k < length (m_walkersInPopulation (tear_down cfg (int k) s))"
    using assms length_view [of "tear_down cfg (int k) s"] tear_down_view [OF assms, of cfg]
    by (auto simp: length_view split: if_splits)
  obtain c vs where cv: "view s = (c, vs)" by (cases "view s")
  have k: "k < length vs" using assms length_view [of s] cv by simp
  show ?thesis
    unfolding set_up_view [OF len] tear_down_view [OF assms] cv slot_step_def
    using k by (cases "vs ! k") (auto simp: Let_def list_update_known)
qed

lemma length_slot_step [simp]: "length (snd (slot_step cfg k cv)) = length (snd cv)"
  by (cases cv) (simp add: slot_step_def Let_def)

lemma filter_count_update:
  assumes "k < length vs"
  shows "int (length (filter P (vs[k := v])))
           = int (length (filter P vs)) - of_bool (P (vs ! k)) + of_bool (P v)"
proof -
  have "vs = take k vs @ vs ! k # drop (Suc k) vs"
    using assms by (simp add: id_take_nth_drop)
  then have "filter P vs = filter P (take k vs) @ filter P (vs ! k # drop (Suc k) vs)"
    by (metis filter_append)
  then have "length (filter P vs)
               = length (filter P (take k vs)) + of_bool (P (vs ! k)) + length (filter P (drop (Suc k) vs))"
    by simp
  moreover have "length (filter P (vs[k := v]))
               = length (filter P (take k vs)) + of_bool (P v) + length (filter P (drop (Suc k) vs))"
    using assms by (simp add: upd_conv_take_nth_drop)
  ultimately show ?thesis by simp
qed

lemma slot_step_counted:
  assumes "k < length (snd cv)" and "counted cv"
  shows "counted (slot_step cfg k cv)"
proof -
  obtain c vs where cv: "cv = (c, vs)" by (cases cv)
  obtain e t where v: "vs ! k = (e, t)" by (cases "vs ! k")
  show ?thesis
    using assms unfolding cv counted_def slot_step_def
    by (simp add: Let_def v filter_count_update)
qed

lemma slot_step_bound:
  assumes "gParallelEvaluations cfg \<le> real_of_int G" and "fst cv \<le> G"
  shows "fst (slot_step cfg k cv) \<le> G"
proof -
  obtain c vs where cv: "cv = (c, vs)" by (cases cv)
  show ?thesis
    using assms unfolding cv slot_step_def by (auto simp: Let_def)
qed

lemma slot_step_settled:
  assumes "k < length (snd cv)" and "settled cfg (snd cv)"
  shows "settled cfg (snd (slot_step cfg k cv))"
proof -
  obtain c vs where cv: "cv = (c, vs)" by (cases cv)
  obtain e t where v: "vs ! k = (e, t)" by (cases "vs ! k")
  have old: "\<not> e \<Longrightarrow> t = 0 \<or> EVALUATION_DURATION cfg \<le> t"
    using assms v unfolding cv settled_def by (metis fst_conv nth_mem snd_conv)
  have upd: "settled cfg (vs[k := v'])"
    if "\<not> fst v' \<Longrightarrow> snd v' = 0 \<or> EVALUATION_DURATION cfg \<le> snd v'" for v'
    unfolding settled_def
  proof (intro ballI impI)
    fix x assume "x \<in> set (vs[k := v'])" and "\<not> fst x"
    moreover have "set (vs[k := v']) \<subseteq> insert v' (set vs)"
      by (rule set_update_subset_insert)
    ultimately show "snd x = 0 \<or> EVALUATION_DURATION cfg \<le> snd x"
      using that assms(2) unfolding cv settled_def by auto
  qed
  show ?thesis
    unfolding cv slot_step_def using old by (auto simp: Let_def v intro!: upd)
qed

lemma slot_step_ordered:
  assumes k: "k < length vs" and D: "0 < EVALUATION_DURATION cfg"
    and ord: "ordered vs"
    and wait: "\<forall>i<k. unstarted (vs ! i) \<longrightarrow> gParallelEvaluations cfg \<le> real_of_int c"
  shows "ordered (snd (slot_step cfg k (c, vs)))
         \<and> (\<forall>i<Suc k. unstarted (snd (slot_step cfg k (c, vs)) ! i)
               \<longrightarrow> gParallelEvaluations cfg \<le> real_of_int (fst (slot_step cfg k (c, vs))))"
proof -
  obtain e t where v: "vs ! k = (e, t)" by (cases "vs ! k")
  have before: "\<And>i. i < k \<Longrightarrow> e \<Longrightarrow> \<not> unstarted (vs ! i)"
    using ord k v unfolding ordered_def by (metis fst_conv)
  consider (finished) "e" "EVALUATION_DURATION cfg \<le> t"
    | (start) "\<not> e" "t = 0" "real_of_int c < gParallelEvaluations cfg"
    | (same) "\<not> (e \<and> EVALUATION_DURATION cfg \<le> t)"
             "\<not> (\<not> e \<and> t = 0 \<and> real_of_int c < gParallelEvaluations cfg)"
    by blast
  then show ?thesis
  proof cases
    case finished
    then have step: "slot_step cfg k (c, vs) = (c - 1, vs[k := (False, t)])"
      using D by (auto simp: slot_step_def Let_def v)
    have "ordered (vs[k := (False, t)])"
      unfolding ordered_def
    proof (intro allI impI)
      fix i j
      assume a: "i < j \<and> j < length (vs[k := (False, t)]) \<and> fst (vs[k := (False, t)] ! j)"
      then have j: "j \<noteq> k" "fst (vs ! j)" "j < length vs"
        using k by (auto simp: nth_list_update split: if_splits)
      show "\<not> unstarted (vs[k := (False, t)] ! i)"
      proof (cases "i = k")
        case True
        then show ?thesis using k finished D by (simp add: unstarted_def)
      next
        case False
        then show ?thesis using ord a j unfolding ordered_def by (metis nth_list_update_neq)
      qed
    qed
    moreover have "\<forall>i<Suc k. \<not> unstarted (vs[k := (False, t)] ! i)"
    proof (intro allI impI)
      fix i assume "i < Suc k"
      then show "\<not> unstarted (vs[k := (False, t)] ! i)"
        using k finished D before [of i] by (cases "i = k") (auto simp: unstarted_def)
    qed
    ultimately show ?thesis by (simp add: step)
  next
    case start
    then have step: "slot_step cfg k (c, vs) = (c + 1, vs[k := (True, 0)])"
      by (simp add: slot_step_def Let_def v)
    have none: "\<And>i. i < k \<Longrightarrow> \<not> unstarted (vs ! i)"
      using wait start(3) by fastforce
    have "ordered (vs[k := (True, 0)])"
      unfolding ordered_def
    proof (intro allI impI)
      fix i j
      assume a: "i < j \<and> j < length (vs[k := (True, 0)]) \<and> fst (vs[k := (True, 0)] ! j)"
      show "\<not> unstarted (vs[k := (True, 0)] ! i)"
      proof (cases "i = k")
        case True
        then show ?thesis using k by (simp add: unstarted_def)
      next
        case ik: False
        show ?thesis
        proof (cases "j = k")
          case True
          then show ?thesis using a ik none [of i] by simp
        next
          case False
          then show ?thesis using ord a ik unfolding ordered_def
            by (metis length_list_update nth_list_update_neq)
        qed
      qed
    qed
    moreover have "\<forall>i<Suc k. \<not> unstarted (vs[k := (True, 0)] ! i)"
    proof (intro allI impI)
      fix i assume "i < Suc k"
      then show "\<not> unstarted (vs[k := (True, 0)] ! i)"
        using k none [of i] by (cases "i = k") (auto simp: unstarted_def)
    qed
    ultimately show ?thesis by (simp add: step)
  next
    case same
    then have step: "slot_step cfg k (c, vs) = (c, vs)"
      by (auto simp: slot_step_def Let_def v list_update_known)
    have "\<forall>i<Suc k. unstarted (vs ! i) \<longrightarrow> gParallelEvaluations cfg \<le> real_of_int c"
    proof (intro allI impI)
      fix i assume i: "i < Suc k" and u: "unstarted (vs ! i)"
      show "gParallelEvaluations cfg \<le> real_of_int c"
      proof (cases "i = k")
        case True
        then show ?thesis using u same v by (auto simp: unstarted_def)
      next
        case False
        then have "i < k" using i by simp
        then show ?thesis using u wait by blast
      qed
    qed
    then show ?thesis using ord by (simp add: step)
  qed
qed

lemma schedule_loop_view:
  assumes "length (m_walkersInPopulation s) = POPULATION_SIZE cfg"
  shows "view (schedule_loop cfg rnd s) = fold (slot_step cfg) [0..<POPULATION_SIZE cfg] (view s)"
proof -
  let ?f = "\<lambda>k t. set_up cfg rnd (int k) (tear_down cfg (int k) t)"
  let ?I = "\<lambda>k t. view t = fold (slot_step cfg) [0..<k] (view s)
                    \<and> length (m_walkersInPopulation t) = POPULATION_SIZE cfg"
  have "?I (POPULATION_SIZE cfg) (fold ?f [0..<POPULATION_SIZE cfg] s)"
  proof (rule fold_upt_invariant [of ?I s "POPULATION_SIZE cfg" ?f])
    show "?I 0 s" using assms by simp
  next
    fix k t assume k: "k < POPULATION_SIZE cfg" and I: "?I k t"
    then have kl: "k < length (m_walkersInPopulation t)" by simp
    have v: "view (?f k t) = slot_step cfg k (view t)" by (rule slot_view [OF kl])
    have "length (m_walkersInPopulation (?f k t)) = length (snd (view (?f k t)))"
      by (simp add: length_view)
    also have "\<dots> = length (m_walkersInPopulation t)"
      by (simp add: v length_view)
    finally show "?I (Suc k) (?f k t)" using I v by simp
  qed
  then show ?thesis by (simp add: schedule_loop_def for_up_nat)
qed

lemma length_fold_slot_step [simp]:
  "length (snd (fold (slot_step cfg) ks cv)) = length (snd cv)"
  by (induction ks arbitrary: cv) simp_all

lemma schedule_loop_length:
  assumes "length (m_walkersInPopulation s) = POPULATION_SIZE cfg"
  shows "length (m_walkersInPopulation (schedule_loop cfg rnd s)) = POPULATION_SIZE cfg"
  using length_view [of "schedule_loop cfg rnd s"] length_view [of s] assms
  by (simp add: schedule_loop_view)

lemma fold_slot_step_counted:
  assumes "n \<le> length (snd cv)" and "counted cv"
  shows "counted (fold (slot_step cfg) [0..<n] cv)"
  using assms by (induction n) (simp_all add: slot_step_counted)

lemma fold_slot_step_bound:
  assumes "gParallelEvaluations cfg \<le> real_of_int G" and "fst cv \<le> G"
  shows "fst (fold (slot_step cfg) ks cv) \<le> G"
  using assms by (induction ks arbitrary: cv) (simp_all add: slot_step_bound)

lemma fold_slot_step_settled:
  assumes "n \<le> length (snd cv)" and "settled cfg (snd cv)"
  shows "settled cfg (snd (fold (slot_step cfg) [0..<n] cv))"
  using assms by (induction n) (simp_all add: slot_step_settled)

lemma fold_slot_step_ordered:
  assumes "n \<le> length (snd cv)" and "0 < EVALUATION_DURATION cfg" and "ordered (snd cv)"
  shows "ordered (snd (fold (slot_step cfg) [0..<n] cv))
         \<and> (\<forall>i<n. unstarted (snd (fold (slot_step cfg) [0..<n] cv) ! i)
               \<longrightarrow> gParallelEvaluations cfg \<le> real_of_int (fst (fold (slot_step cfg) [0..<n] cv)))"
  using assms
proof (induction n)
  case 0
  then show ?case by simp
next
  case (Suc n)
  obtain c vs where cv': "fold (slot_step cfg) [0..<n] cv = (c, vs)"
    by (cases "fold (slot_step cfg) [0..<n] cv")
  have len: "length vs = length (snd cv)"
    using length_fold_slot_step [of cfg "[0..<n]" cv] cv' by simp
  have "ordered vs" "\<forall>i<n. unstarted (vs ! i) \<longrightarrow> gParallelEvaluations cfg \<le> real_of_int c"
    using Suc cv' by simp_all
  moreover have "n < length vs" using Suc.prems(1) len by simp
  ultimately show ?case
    using slot_step_ordered [of n vs cfg c] Suc.prems(2) by (simp add: cv')
qed

lemma round_complete_iff:
  assumes "counted (c, vs)" and "settled cfg vs" and "0 < gParallelEvaluations cfg"
    and "\<forall>i<length vs. unstarted (vs ! i) \<longrightarrow> gParallelEvaluations cfg \<le> real_of_int c"
  shows "c = 0 \<longleftrightarrow> list_all (\<lambda>v. \<not> fst v \<and> EVALUATION_DURATION cfg \<le> snd v) vs"
proof
  assume c: "c = 0"
  then have none: "\<forall>v\<in>set vs. \<not> fst v"
    using assms(1) by (auto simp: counted_def filter_empty_conv)
  have "\<forall>v\<in>set vs. \<not> unstarted v"
  proof
    fix v assume "v \<in> set vs"
    then obtain i where "i < length vs" "vs ! i = v" by (auto simp: in_set_conv_nth)
    then show "\<not> unstarted v" using assms(3,4) c by fastforce
  qed
  then show "list_all (\<lambda>v. \<not> fst v \<and> EVALUATION_DURATION cfg \<le> snd v) vs"
    using none assms(2) unfolding settled_def list_all_iff unstarted_def by blast
next
  assume "list_all (\<lambda>v. \<not> fst v \<and> EVALUATION_DURATION cfg \<le> snd v) vs"
  then have "filter fst vs = []"
    by (auto simp: list_all_iff filter_empty_conv)
  then show "c = 0" using assms(1) by (simp add: counted_def)
qed

section \<open>What reaping and sowing leave alone\<close>

lemma view_set_walker:
  assumes "sched_view w = sched_view (walker s k)"
  shows "view (set_walker k w s) = view s"
proof (cases "k < length (m_walkersInPopulation s)")
  case True
  then show ?thesis
    using assms by (simp add: view_def set_walker_def walker_def map_update list_update_known)
next
  case False
  then have "(m_walkersInPopulation s)[k := w] = m_walkersInPopulation s"
    by (simp add: list_update_beyond)
  then show ?thesis by (simp add: view_def set_walker_def)
qed

lemma obs_set_walker:
  assumes "sched_view w = sched_view (walker s k)"
  shows "obs (set_walker k w s) = obs s"
  using view_set_walker [OF assms] by (simp add: obs_def generations_def set_walker_def)

lemma obs_set_weight [simp]: "obs (set_weight k i v s) = obs s"
  by (simp add: set_weight_def obs_set_walker sched_view_def)

lemma obs_randCalls [simp]: "obs (s\<lparr>randCalls := n\<rparr>) = obs s"
  by (simp add: obs_def view_def generations_def)

lemma obs_nextReaped [simp]: "obs (s\<lparr>m_nextReapedIndex := n\<rparr>) = obs s"
  by (simp add: obs_def view_def generations_def)

lemma obs_print:
  assumes "m \<noteq> NewGeneration"
  shows "obs (b3Printf m s) = obs s"
  using assms by (simp add: obs_def view_def generations_def b3Printf_def)

lemma walker_randCalls [simp]: "walker (s\<lparr>randCalls := n\<rparr>) k = walker s k"
  by (simp add: walker_def)

lemma reap_obs:
  assumes "reap cfg s = Inr s'"
  shows "obs s' = obs s"
proof -
  let ?body = "\<lambda>i (reaped, s). bindE (slot_at (m_walkersInPopulation s) i)
                 (\<lambda>k. Inr (reaped + (1::int), set_walker k ((walker s k)\<lparr>m_reaped := True\<rparr>) s))"
  obtain n t where loop: "for_downE (int (POPULATION_SIZE cfg) - 1)
      (real_of_int (int (POPULATION_SIZE cfg) - 1) * (1 - REAP_QTY cfg)) ?body (0, s) = Inr (n, t)"
    and s': "s' = b3Printf (WalkersReaped n) t"
    using assms unfolding reap_def
    by (cases "for_downE (int (POPULATION_SIZE cfg) - 1)
      (real_of_int (int (POPULATION_SIZE cfg) - 1) * (1 - REAP_QTY cfg)) ?body (0, s)") auto
  have "obs (snd (n, t)) = obs s"
  proof (rule for_downE_preserves [OF loop, where P = "\<lambda>p. obs (snd p) = obs s"])
    show "obs (snd (0::int, s)) = obs s" by simp
  next
    fix k p p' assume "obs (snd p) = obs s" and "?body k p = Inr p'"
    then show "obs (snd p') = obs s"
      by (cases p; cases "slot_at (m_walkersInPopulation (snd p)) k")
         (auto simp: obs_set_walker sched_view_def)
  qed
  then show ?thesis by (simp add: s' obs_print)
qed

lemma getRandomElite_obs:
  assumes "getRandomElite cfg rnd s = Inr (k, s')"
  shows "obs s' = obs s"
  using assms unfolding getRandomElite_def Let_def
  by (cases "slot_at (m_walkersInPopulation (s\<lparr>randCalls := randCalls s + 1\<rparr>))
        (trunc (real_of_int (int (POPULATION_SIZE cfg) - 1) * SOW_ELITE_QTY cfg
                 * real (rand_quot rnd (randCalls s))))") auto

lemma getRandomNonElite_obs:
  assumes "getRandomNonElite cfg rnd s = Inr (k, s')"
  shows "obs s' = obs s"
  using assms unfolding getRandomNonElite_def Let_def
  by (cases "slot_at (m_walkersInPopulation (s\<lparr>randCalls := randCalls s + 1\<rparr>))
        (trunc (real_of_int (int (POPULATION_SIZE cfg) - 1) * SOW_ELITE_QTY cfg
                 + real_of_int (int (POPULATION_SIZE cfg) - 1) * (1 - SOW_ELITE_QTY cfg)
                    * real (rand_quot rnd (randCalls s))))") auto

lemma getNextReaped_obs:
  assumes "getNextReaped cfg s = Inr (k, s')"
  shows "obs s' = obs s"
proof -
  let ?s1 = "if real_of_int (int (POPULATION_SIZE cfg) - 1) * (1 - REAP_QTY cfg)
                     \<le> real_of_int ((int (POPULATION_SIZE cfg) - 1) - m_nextReapedIndex s)
             then s\<lparr>m_nextReapedIndex := m_nextReapedIndex s + 1\<rparr> else s"
  have "obs ?s1 = obs s" by simp
  moreover have "s' = ?s1"
    using assms unfolding getNextReaped_def Let_def
    by (cases "slot_at (m_walkersInPopulation ?s1)
                 ((int (POPULATION_SIZE cfg) - 1) - m_nextReapedIndex ?s1 + 1)")
       (auto split: if_splits)
  ultimately show ?thesis by simp
qed

lemma crossover_obs:
  assumes "crossover rnd mother father child s = Inr s'"
  shows "obs s' = obs s"
proof (rule for_upE_preserves [OF assms [unfolded crossover_def], where P = "\<lambda>t. obs t = obs s"])
  show "obs s = obs s" by simp
next
  fix k t t'
  assume "obs t = obs s"
    and "(let random = rand_unit rnd (randCalls t); s1 = t\<lparr>randCalls := randCalls t + 1\<rparr>
          in case child of None \<Rightarrow> Inl NullPointer
             | Some c \<Rightarrow>
                 if 5 / 10 \<le> random
                 then Inr (set_weight c (nat k) (m_sensoryMotorWeights (walker s1 mother) ! nat k) s1)
                 else Inr (set_weight c (nat k) (m_sensoryMotorWeights (walker s1 father) ! nat k) s1))
         = Inr t'"
  then show "obs t' = obs s"
    by (cases child) (auto simp: Let_def split: if_splits)
qed

lemma mutate_obs: "obs (mutate rnd k rate s) = obs s"
  unfolding mutate_def by (rule for_up_keeps) (simp add: Let_def)

lemma bindE_Inr_iff: "bindE m f = Inr y \<longleftrightarrow> (\<exists>x. m = Inr x \<and> f x = Inr y)"
  by (cases m) simp_all

lemma sow_crossover_obs:
  assumes "sow_crossover cfg rnd (n, s) = Inr (n', s')"
  shows "obs s' = obs s"
proof -
  have "obs (snd (n', s')) = obs s"
  proof (rule for_upE_preserves [OF assms [unfolded sow_crossover_def],
          where P = "\<lambda>p. obs (snd p) = obs s"])
    show "obs (snd (n, s)) = obs s" by simp
  next
    fix k :: int and p p' :: "int \<times> NN3DWalkersExample"
    assume P: "obs (snd p) = obs s"
      and body: "(case p of (cnt, s) \<Rightarrow>
         bindE (getRandomElite cfg rnd s) (\<lambda>(mother, s1).
         let q = rand_quot rnd (randCalls s1);
             s2 = s1\<lparr>randCalls := randCalls s1 + 1\<rparr>
         in bindE (if SOW_ELITE_PARTNER cfg < real q then getRandomElite cfg rnd s2
                   else getRandomNonElite cfg rnd s2) (\<lambda>(father, s3).
            bindE (getNextReaped cfg s3) (\<lambda>(offspring, s4).
            bindE (crossover rnd mother father offspring s4) (\<lambda>s5. Inr (cnt + 1, s5)))))) = Inr p'"
    obtain m t where p: "p = (m, t)" by (cases p)
    from body obtain mother s1 father s3 offspring s4 s5 where
      a: "getRandomElite cfg rnd t = Inr (mother, s1)"
      and b: "(if SOW_ELITE_PARTNER cfg < real (rand_quot rnd (randCalls s1))
               then getRandomElite cfg rnd (s1\<lparr>randCalls := Suc (randCalls s1)\<rparr>)
               else getRandomNonElite cfg rnd (s1\<lparr>randCalls := Suc (randCalls s1)\<rparr>)) = Inr (father, s3)"
      and c: "getNextReaped cfg s3 = Inr (offspring, s4)"
      and d: "crossover rnd mother father offspring s4 = Inr s5"
      and e: "p' = (m + 1, s5)"
      unfolding p by (auto simp: bindE_Inr_iff Let_def)
    have "obs s1 = obs t" using a by (rule getRandomElite_obs)
    moreover have "obs s3 = obs s1"
      using b getRandomElite_obs getRandomNonElite_obs
      by (metis obs_randCalls)
    moreover have "obs s4 = obs s3" using c by (rule getNextReaped_obs)
    moreover have "obs s5 = obs s4" using d by (rule crossover_obs)
    ultimately show "obs (snd p') = obs s" using P e p by simp
  qed
  then show ?thesis by simp
qed

lemma sow_mutants_obs:
  assumes "sow_mutants cfg rnd s = Inr s'"
  shows "obs s' = obs s"
proof (rule for_upE_preserves [OF assms [unfolded sow_mutants_def], where P = "\<lambda>t. obs t = obs s"])
  show "obs s = obs s" by simp
next
  fix k t t'
  assume "obs t = obs s"
    and "bindE (slot_at (m_walkersInPopulation t) k)
           (\<lambda>ka. Inr (mutate rnd ka (mutation_rate cfg k) t)) = Inr t'"
  then show "obs t' = obs s" by (auto simp: bindE_Inr_iff mutate_obs)
qed

lemma sow_random_obs:
  assumes "sow_random cfg rnd (n, s) = Inr (n', s')"
  shows "obs s' = obs s"
proof -
  have "obs (snd (n', s')) = obs s"
  proof (rule for_upE_preserves [OF assms [unfolded sow_random_def],
          where P = "\<lambda>p. obs (snd p) = obs s"])
    show "obs (snd (n, s)) = obs s" by simp
  next
    fix k :: int and p p' :: "int \<times> NN3DWalkersExample"
    assume P: "obs (snd p) = obs s"
      and body: "(case p of (cnt, s) \<Rightarrow>
          bindE (getNextReaped cfg s) (\<lambda>(reaped, s1).
            case reaped of
              None \<Rightarrow> Inl NullPointer
            | Some k \<Rightarrow>
                (let s2 = set_walker k ((walker s1 k)\<lparr>m_reaped := False\<rparr>) s1;
                     (ws, n) = randomizeSensoryMotorWeights rnd
                                 (m_sensoryMotorWeights (walker s2 k), randCalls s2)
                 in Inr (cnt + 1,
                      set_walker k ((walker s2 k)\<lparr>m_sensoryMotorWeights := ws\<rparr>) (s2\<lparr>randCalls := n\<rparr>))))) = Inr p'"
    obtain m t where p: "p = (m, t)" by (cases p)
    from body obtain c s1 where
      a: "getNextReaped cfg t = Inr (Some c, s1)"
      and e: "snd p' = (let s2 = set_walker c ((walker s1 c)\<lparr>m_reaped := False\<rparr>) s1;
                     (ws, n) = randomizeSensoryMotorWeights rnd
                                 (m_sensoryMotorWeights (walker s2 c), randCalls s2)
                 in set_walker c ((walker s2 c)\<lparr>m_sensoryMotorWeights := ws\<rparr>) (s2\<lparr>randCalls := n\<rparr>))"
      unfolding p by (auto simp: bindE_Inr_iff Let_def split_beta split: option.splits)
    have "obs s1 = obs t" using a by (rule getNextReaped_obs)
    moreover have "obs (snd p') = obs s1"
      unfolding e by (simp add: Let_def split_beta obs_set_walker sched_view_def)
    ultimately show "obs (snd p') = obs s" using P p by simp
  qed
  then show ?thesis by simp
qed

lemma sow_obs:
  assumes "sow cfg rnd s = Inr s'"
  shows "obs s' = obs s"
proof -
  from assms obtain n1 s1 s2 n3 s3 where
    a: "sow_crossover cfg rnd (0, s) = Inr (n1, s1)"
    and b: "sow_mutants cfg rnd s1 = Inr s2"
    and c: "sow_random cfg rnd (n1, s2) = Inr (n3, s3)"
    and d: "s' = b3Printf (WalkersSown n3) s3"
    unfolding sow_def by (auto simp: bindE_Inr_iff)
  show ?thesis
    using sow_crossover_obs [OF a] sow_mutants_obs [OF b] sow_random_obs [OF c]
    by (simp add: d obs_print)
qed

section \<open>The ranking\<close>

lemma mset_insert_ranked [simp]: "mset (insert_ranked cmp x ys) = add_mset x (mset ys)"
  by (induction ys) simp_all

lemma mset_quickSort [simp]: "mset (quickSort cmp xs) = mset xs"
  by (induction xs) (simp_all add: quickSort_def)

lemma set_quickSort [simp]: "set (quickSort cmp xs) = set xs"
  by (metis mset_quickSort set_mset_mset)

lemma length_quickSort [simp]: "length (quickSort cmp xs) = length xs"
  by (metis mset_quickSort size_mset)

lemma quickSort_Cons: "quickSort cmp (x # xs) = insert_ranked cmp x (quickSort cmp xs)"
  by (simp add: quickSort_def)

lemma set_insert_ranked [simp]: "set (insert_ranked cmp x ys) = insert x (set ys)"
  by (metis mset_insert_ranked set_mset_add_mset_insert set_mset_mset)

lemma insert_ranked_descending:
  assumes "sorted_wrt (\<lambda>a b. getFitness b \<le> getFitness a) ys"
  shows "sorted_wrt (\<lambda>a b. getFitness b \<le> getFitness a) (insert_ranked fitnessComparator x ys)"
  using assms by (induction ys) (auto simp: fitnessComparator_def)

lemma quickSort_descending:
  "sorted_wrt (\<lambda>a b. getFitness b \<le> getFitness a) (quickSort fitnessComparator xs)"
  by (induction xs) (simp_all add: quickSort_Cons insert_ranked_descending, simp add: quickSort_def)

lemma insert_ranked_stable:
  "filter (\<lambda>w. getFitness w = f) (insert_ranked fitnessComparator x ys)
     = (if getFitness x = f then x # filter (\<lambda>w. getFitness w = f) ys
        else filter (\<lambda>w. getFitness w = f) ys)"
  by (induction ys) (auto simp: fitnessComparator_def)

lemma quickSort_stable:
  "filter (\<lambda>w. getFitness w = f) (quickSort fitnessComparator xs) = filter (\<lambda>w. getFitness w = f) xs"
  by (induction xs) (simp_all add: quickSort_Cons insert_ranked_stable, simp add: quickSort_def)

lemma insert_ranked_ties:
  assumes "sorted_wrt ranks_before ys" and "\<forall>y\<in>set ys. m_index x < m_index y"
  shows "sorted_wrt ranks_before (insert_ranked fitnessComparator x ys)"
  using assms
proof (induction ys)
  case Nil
  then show ?case by simp
next
  case (Cons y ys)
  show ?case
  proof (cases "fitnessComparator y x")
    case True
    then have "ranks_before y x" by (simp add: fitnessComparator_def ranks_before_def)
    then show ?thesis using Cons True by auto
  next
    case False
    then have xy: "getFitness y \<le> getFitness x" by (simp add: fitnessComparator_def)
    have "ranks_before x z" if "z \<in> set (y # ys)" for z
    proof -
      have "getFitness z \<le> getFitness y"
        using that Cons.prems(1) by (auto simp: ranks_before_def)
      moreover have "m_index x < m_index z" using that Cons.prems(2) by auto
      ultimately show ?thesis using xy by (auto simp: ranks_before_def)
    qed
    then show ?thesis using Cons.prems(1) False by auto
  qed
qed

lemma quickSort_ties:
  assumes "sorted_wrt (<) (map m_index xs)"
  shows "sorted_wrt ranks_before (quickSort fitnessComparator xs)"
  using assms
proof (induction xs)
  case Nil
  then show ?case by (simp add: quickSort_def)
next
  case (Cons x xs)
  then show ?case by (auto simp: quickSort_Cons intro!: insert_ranked_ties)
qed

section \<open>Steps of a run\<close>

lemma for_up_set_walker:
  assumes "length (m_walkersInPopulation s) = n"
  shows "for_up 0 (real n) (\<lambda>i t. set_walker (nat i) (f (walker t (nat i))) t) s
           = s\<lparr>m_walkersInPopulation := map f (m_walkersInPopulation s)\<rparr>"
  using assms by (simp add: for_up_nat fold_set_walker)

lemma rateEvaluations_Inr:
  assumes "rateEvaluations cfg s = Inr s'"
    and "length (m_walkersInPopulation s) = POPULATION_SIZE cfg"
  shows "m_walkersInPopulation s'
           = map (\<lambda>w. w\<lparr>m_evaluationTime := 0\<rparr>) (quickSort fitnessComparator (m_walkersInPopulation s))"
    and "m_walkersInEvaluation s' = m_walkersInEvaluation s"
    and "generations s' = generations s"
    and "m_nextReapedIndex s' = 0"
proof -
  let ?s1 = "s\<lparr>m_walkersInPopulation := quickSort fitnessComparator (m_walkersInPopulation s)\<rparr>"
  let ?loop = "for_up 0 (real (POPULATION_SIZE cfg))
                 (\<lambda>i t. set_walker (nat i) ((walker t (nat i))\<lparr>m_evaluationTime := 0\<rparr>) t)"
  have loop: "?loop t = t\<lparr>m_walkersInPopulation := map (\<lambda>w. w\<lparr>m_evaluationTime := 0\<rparr>) (m_walkersInPopulation t)\<rparr>"
    if "length (m_walkersInPopulation t) = POPULATION_SIZE cfg" for t
    using that by (rule for_up_set_walker)
  from assms(1) obtain t where t: "s' = (?loop t)\<lparr>m_nextReapedIndex := 0\<rparr>"
    and w: "m_walkersInPopulation t = m_walkersInPopulation ?s1"
    and c: "m_walkersInEvaluation t = m_walkersInEvaluation s"
    and g: "generations t = generations s"
    unfolding rateEvaluations_def Let_def
    by (auto simp: bindE_Inr_iff b3Printf_def generations_def split: if_splits)
  have len: "length (m_walkersInPopulation t) = POPULATION_SIZE cfg"
    using w assms(2) by simp
  show "m_walkersInPopulation s'
           = map (\<lambda>w. w\<lparr>m_evaluationTime := 0\<rparr>) (quickSort fitnessComparator (m_walkersInPopulation s))"
    by (simp add: t loop [OF len] w)
  show "m_walkersInEvaluation s' = m_walkersInEvaluation s"
    by (simp add: t loop [OF len] c)
  show "generations s' = generations s"
    using g by (simp add: t loop [OF len] generations_def)
  show "m_nextReapedIndex s' = 0"
    by (simp add: t)
qed

lemma rateEvaluations_succeeds:
  assumes "0 < length (m_walkersInPopulation s)"
  shows "\<exists>s'. rateEvaluations cfg s = Inr s'"
proof -
  have "0 < length (quickSort fitnessComparator (m_walkersInPopulation s))"
    using assms by simp
  then show ?thesis
    by (simp add: rateEvaluations_def Let_def slot_at_def del: length_greater_0_conv)
qed

lemma sched_view_moved [simp]: "sched_view (moved e w) = sched_view w"
proof -
  have "sched_view (fold setTouchSensor ks v) = sched_view v" for ks v
    by (rule fold_keeps) (simp add: setTouchSensor_def sched_view_def)
  then show ?thesis by (cases e) (simp add: moved_def sched_view_def)
qed

lemma map_indexed:
  "map g (map (\<lambda>(k, w). h k w) (zip [0..<length ws] ws)) = map (\<lambda>w. g' w) ws"
  if "\<And>k w. g (h k w) = g' w"
proof -
  have "map g (map (\<lambda>(k, w). h k w) (zip [0..<length ws] ws))
          = map (g' \<circ> snd) (zip [0..<length ws] ws)"
    using that by (simp add: split_beta comp_def)
  also have "\<dots> = map g' (map snd (zip [0..<length ws] ws))"
    by (simp only: map_map)
  also have "map snd (zip [0..<length ws] ws) = ws"
    by (rule map_snd_zip) simp
  finally show ?thesis .
qed

lemma stepSimulation_obs: "obs (stepSimulation world s) = obs s"
proof -
  have "map sched_view (map (\<lambda>(k, w). moved (world k) w)
          (zip [0..<length (m_walkersInPopulation s)] (m_walkersInPopulation s)))
        = map sched_view (m_walkersInPopulation s)"
    by (rule map_indexed) simp
  then show ?thesis by (simp add: obs_def view_def generations_def stepSimulation_def)
qed

lemma stepSimulation_length:
  "length (m_walkersInPopulation (stepSimulation world s)) = length (m_walkersInPopulation s)"
  by (simp add: stepSimulation_def)

lemma updateEvaluations_view:
  assumes "length (m_walkersInPopulation s) = POPULATION_SIZE cfg"
  shows "view (updateEvaluations cfg dt s)
           = (fst (view s), map (advance (if 1 / 60 < dt then 1 / 60 else dt)) (snd (view s)))"
    and "generations (updateEvaluations cfg dt s) = generations s"
    and "length (m_walkersInPopulation (updateEvaluations cfg dt s)) = POPULATION_SIZE cfg"
  using assms
  by (simp_all add: updateEvaluations_eq view_def generations_def comp_def sched_view_def
        advance_def update_walker_frame)

lemma initPhysics_view:
  "view (initPhysics cfg rnd) = (0, replicate (POPULATION_SIZE cfg) (False, 0))"
  "console (initPhysics cfg rnd) = []"
proof -
  let ?f = "\<lambda>k s. resetWalkerAt rnd (int k) (m_resetPosition s) s"
  let ?I = "\<lambda>k t. view t = (0, replicate k (False, 0)) \<and> console t = []"
  have "?I (POPULATION_SIZE cfg)
          (fold ?f [0..<POPULATION_SIZE cfg] (NN3DWalkersExample_new\<lparr>m_SimulationTime := 0\<rparr>))"
  proof (rule fold_upt_invariant [of ?I _ "POPULATION_SIZE cfg" ?f])
    show "?I 0 (NN3DWalkersExample_new\<lparr>m_SimulationTime := 0\<rparr>)"
      by (simp add: view_def NN3DWalkersExample_new_def)
  next
    fix k t assume "k < POPULATION_SIZE cfg" and I: "?I k t"
    then have len: "length (m_walkersInPopulation t) = k"
      using length_view [of t] by simp
    show "?I (Suc k) (?f k t)"
      using I len
      by (simp add: resetWalkerAt_def split_beta view_def sched_view_def NNWalker_new_fields
            replicate_append_same)
  qed
  then show "view (initPhysics cfg rnd) = (0, replicate (POPULATION_SIZE cfg) (False, 0))"
    and "console (initPhysics cfg rnd) = []"
    by (simp_all add: initPhysics_def for_up_nat)
qed

lemma generations_set_walker [simp]: "generations (set_walker k w s) = generations s"
  by (simp add: generations_def set_walker_def)

lemma schedule_loop_generations: "generations (schedule_loop cfg rnd s) = generations s"
  unfolding schedule_loop_def
proof (rule for_up_keeps)
  fix k t
  have "generations (tear_down cfg k t) = generations t"
    by (simp add: tear_down_def Let_def generations_def b3Printf_def set_walker_def)
  moreover have "generations (set_up cfg rnd k u) = generations u" for u
    by (simp add: set_up_def Let_def resetWalkerAt_def split_beta)
       (simp add: generations_def b3Printf_def set_walker_def)
  ultimately show "generations (set_up cfg rnd k (tear_down cfg k t)) = generations t" by simp
qed

lemma advance_fst [simp]: "fst (advance d v) = fst v"
  by (simp add: advance_def)

lemma advance_unstarted [simp]: "unstarted (advance d v) = unstarted v"
  by (auto simp: advance_def unstarted_def)

lemma counted_advance:
  assumes "counted (c, vs)"
  shows "counted (c, map (advance d) vs)"
proof -
  have "filter fst (map (advance d) vs) = map (advance d) (filter fst vs)"
    by (simp add: filter_map comp_def)
  then show ?thesis using assms by (simp add: counted_def)
qed

lemma ordered_advance:
  assumes "ordered vs"
  shows "ordered (map (advance d) vs)"
  unfolding ordered_def
proof (intro allI impI)
  fix i j assume a: "i < j \<and> j < length (map (advance d) vs) \<and> fst (map (advance d) vs ! j)"
  then have j: "j < length vs" and i: "i < length vs" by simp_all
  then have "fst (vs ! j)" using a by simp
  then have "\<not> unstarted (vs ! i)" using assms a j unfolding ordered_def by blast
  then show "\<not> unstarted (map (advance d) vs ! i)" using \<open>i < length vs\<close> by simp
qed

lemma settled_advance:
  assumes "settled cfg vs"
  shows "settled cfg (map (advance d) vs)"
  using assms unfolding settled_def by (auto simp: advance_def)

text \<open>The state after the scheduling loop of a step.\<close>

lemma scheduled_count:
  fixes rnd :: "nat \<Rightarrow> nat" and dt :: real
  assumes inv: "count_inv cfg s"
  defines "s1 \<equiv> schedule_loop cfg rnd (updateEvaluations cfg dt s)"
  shows "count_inv cfg s1"
    and "generations s1 = generations s"
    and "view s1 = fold (slot_step cfg) [0..<POPULATION_SIZE cfg]
                     (fst (view s), map (advance (if 1 / 60 < dt then 1 / 60 else dt)) (snd (view s)))"
proof -
  let ?u = "updateEvaluations cfg dt s"
  have len: "length (m_walkersInPopulation s) = POPULATION_SIZE cfg"
    using inv by (simp add: count_inv_def)
  have ulen: "length (m_walkersInPopulation ?u) = POPULATION_SIZE cfg"
    by (rule updateEvaluations_view(3) [OF len])
  have uview: "view ?u = (fst (view s), map (advance (if 1 / 60 < dt then 1 / 60 else dt)) (snd (view s)))"
    by (rule updateEvaluations_view(1) [OF len])
  have vlen: "length (snd (view ?u)) = POPULATION_SIZE cfg"
    using ulen by (simp add: length_view)
  have uc: "counted (view ?u)"
    using inv counted_advance [of "fst (view s)" "snd (view s)"] by (simp add: count_inv_def uview)
  show v1: "view s1 = fold (slot_step cfg) [0..<POPULATION_SIZE cfg]
                     (fst (view s), map (advance (if 1 / 60 < dt then 1 / 60 else dt)) (snd (view s)))"
    unfolding s1_def uview [symmetric] by (rule schedule_loop_view [OF ulen])
  have "length (m_walkersInPopulation s1) = POPULATION_SIZE cfg"
    unfolding s1_def by (rule schedule_loop_length [OF ulen])
  moreover have "counted (view s1)"
    unfolding v1 uview [symmetric] by (rule fold_slot_step_counted) (simp_all add: vlen uc)
  ultimately show "count_inv cfg s1" by (simp add: count_inv_def)
  show "generations s1 = generations s"
    unfolding s1_def
    by (simp add: schedule_loop_generations updateEvaluations_view(2) [OF len])
qed

lemma scheduled:
  fixes rnd :: "nat \<Rightarrow> nat" and dt :: real
  assumes inv: "sched_inv cfg s" and D: "0 < EVALUATION_DURATION cfg"
  defines "s1 \<equiv> schedule_loop cfg rnd (updateEvaluations cfg dt s)"
  shows "ordered (snd (view s1))" and "settled cfg (snd (view s1))"
    and "\<forall>i<POPULATION_SIZE cfg. unstarted (snd (view s1) ! i)
           \<longrightarrow> gParallelEvaluations cfg \<le> real_of_int (fst (view s1))"
proof -
  let ?d = "if 1 / 60 < dt then 1 / 60 else dt"
  let ?u = "(fst (view s), map (advance ?d) (snd (view s)))"
  have cinv: "count_inv cfg s" using inv by (simp add: sched_inv_def)
  have v1: "view s1 = fold (slot_step cfg) [0..<POPULATION_SIZE cfg] ?u"
    unfolding s1_def by (rule scheduled_count(3) [OF cinv])
  have vlen: "length (snd ?u) = POPULATION_SIZE cfg"
    using cinv by (simp add: count_inv_def length_view)
  have uo: "ordered (snd ?u)"
    using inv by (simp add: sched_inv_def ordered_advance)
  have us: "settled cfg (snd ?u)"
    using inv by (simp add: sched_inv_def settled_advance)
  show "settled cfg (snd (view s1))"
    unfolding v1 by (rule fold_slot_step_settled) (simp_all only: vlen us)
  show "ordered (snd (view s1))"
    and "\<forall>i<POPULATION_SIZE cfg. unstarted (snd (view s1) ! i)
           \<longrightarrow> gParallelEvaluations cfg \<le> real_of_int (fst (view s1))"
    unfolding v1
    using fold_slot_step_ordered [of "POPULATION_SIZE cfg" ?u cfg] vlen D uo by simp_all
qed

lemma map_const:
  assumes "\<And>x. x \<in> set xs \<Longrightarrow> f x = c"
  shows "map f xs = replicate (length xs) c"
  using assms by (induction xs) simp_all

text \<open>The state a generation cycle leaves behind.\<close>

lemma generation_cycle:
  assumes rate: "rateEvaluations cfg s1 = Inr s2" and reap: "reap cfg s2 = Inr s3"
    and sow: "sow cfg rnd s3 = Inr s4"
    and len: "length (m_walkersInPopulation s1) = POPULATION_SIZE cfg"
    and cnt: "counted (view s1)" and zero: "m_walkersInEvaluation s1 = 0"
  shows "view (b3Printf NewGeneration s4) = (0, replicate (POPULATION_SIZE cfg) (False, 0))"
    and "generations (b3Printf NewGeneration s4) = Suc (generations s1)"
proof -
  have "length (filter fst (snd (view s1))) = 0"
    using cnt zero by (simp add: counted_def view_def del: length_0_conv)
  then have "filter fst (snd (view s1)) = []" by simp
  then have idle: "\<forall>w\<in>set (m_walkersInPopulation s1). \<not> m_inEvaluation w"
    by (auto simp: view_def filter_empty_conv sched_view_def)
  have "map sched_view (m_walkersInPopulation s2) = replicate (length (m_walkersInPopulation s2)) (False, 0)"
  proof (rule map_const)
    fix w assume "w \<in> set (m_walkersInPopulation s2)"
    then obtain u where "u \<in> set (m_walkersInPopulation s1)" "w = u\<lparr>m_evaluationTime := 0\<rparr>"
      unfolding rateEvaluations_Inr(1) [OF rate len] by auto
    then show "sched_view w = (False, 0)" using idle by (simp add: sched_view_def)
  qed
  moreover have "length (m_walkersInPopulation s2) = POPULATION_SIZE cfg"
    using rateEvaluations_Inr(1) [OF rate len] len by simp
  ultimately have v2: "view s2 = (0, replicate (POPULATION_SIZE cfg) (False, 0))"
    using rateEvaluations_Inr(2) [OF rate len] zero by (simp add: view_def)
  have "obs s4 = obs s2"
    using reap_obs [OF reap] sow_obs [OF sow] by simp
  then have "view s4 = view s2" "generations s4 = generations s2"
    by (simp_all add: obs_def)
  then show "view (b3Printf NewGeneration s4) = (0, replicate (POPULATION_SIZE cfg) (False, 0))"
    and "generations (b3Printf NewGeneration s4) = Suc (generations s1)"
    using v2 rateEvaluations_Inr(3) [OF rate len]
    by (simp_all add: generations_def) (simp add: b3Printf_def)
qed

lemma fresh_round:
  assumes "view s = (0, replicate (POPULATION_SIZE cfg) (False, 0))"
  shows "sched_inv cfg s"
proof -
  have "length (m_walkersInPopulation s) = POPULATION_SIZE cfg"
    using assms length_view [of s] by simp
  moreover have "ordered (replicate (POPULATION_SIZE cfg) (False, 0))"
    by (auto simp: ordered_def)
  ultimately show ?thesis
    using assms by (simp add: sched_inv_def count_inv_def counted_def settled_def)
qed

lemma update_cases:
  assumes upd: "update cfg rnd dt s = Inr s'" and inv: "count_inv cfg s"
  defines "s1 \<equiv> schedule_loop cfg rnd (updateEvaluations cfg dt s)"
  shows "(m_walkersInEvaluation s1 \<noteq> 0 \<and> view s' = view s1 \<and> generations s' = generations s)
       \<or> (m_walkersInEvaluation s1 = 0
           \<and> view s' = (0, replicate (POPULATION_SIZE cfg) (False, 0))
           \<and> generations s' = Suc (generations s))"
proof -
  note sch = scheduled_count [OF inv, of rnd dt, folded s1_def]
  from upd obtain t where t: "scheduleEvaluations cfg rnd (updateEvaluations cfg dt s) = Inr t"
    and s': "view s' = view t" "generations s' = generations t"
    unfolding update_def
    by (auto simp: bindE_Inr_iff view_def generations_def b3Printf_def split: if_splits)
  show ?thesis
  proof (cases "m_walkersInEvaluation s1 = 0")
    case False
    then have "t = s1" using t by (simp add: scheduleEvaluations_def Let_def s1_def)
    then show ?thesis using False s' sch(2) by simp
  next
    case True
    then obtain s2 s3 s4 where "rateEvaluations cfg s1 = Inr s2" "reap cfg s2 = Inr s3"
      "sow cfg rnd s3 = Inr s4" "t = b3Printf NewGeneration s4"
      using t by (auto simp: scheduleEvaluations_def Let_def s1_def bindE_Inr_iff)
    then show ?thesis
      using generation_cycle [of cfg s1 s2 s3 rnd s4] sch(1,2) True s'
      by (simp add: count_inv_def)
  qed
qed

lemma count_inv_update:
  assumes "update cfg rnd dt s = Inr s'" and "count_inv cfg s"
  shows "count_inv cfg s'"
proof -
  let ?s1 = "schedule_loop cfg rnd (updateEvaluations cfg dt s)"
  have s1: "count_inv cfg ?s1" by (rule scheduled_count(1) [OF assms(2)])
  from update_cases [OF assms] show ?thesis
  proof
    assume "m_walkersInEvaluation ?s1 \<noteq> 0 \<and> view s' = view ?s1 \<and> generations s' = generations s"
    then show ?thesis
      using s1 length_view [of s'] length_view [of ?s1] by (simp add: count_inv_def)
  next
    assume "m_walkersInEvaluation ?s1 = 0
      \<and> view s' = (0, replicate (POPULATION_SIZE cfg) (False, 0))
      \<and> generations s' = Suc (generations s)"
    then show ?thesis using fresh_round [of s' cfg] by (simp add: sched_inv_def)
  qed
qed

lemma sched_inv_update:
  assumes "update cfg rnd dt s = Inr s'" and "sched_inv cfg s" and "0 < EVALUATION_DURATION cfg"
  shows "sched_inv cfg s'"
proof -
  let ?s1 = "schedule_loop cfg rnd (updateEvaluations cfg dt s)"
  have cinv: "count_inv cfg s" using assms(2) by (simp add: sched_inv_def)
  note sch = scheduled [OF assms(2,3), of rnd dt]
  from update_cases [OF assms(1) cinv] show ?thesis
  proof
    assume "m_walkersInEvaluation ?s1 \<noteq> 0 \<and> view s' = view ?s1 \<and> generations s' = generations s"
    then show ?thesis
      using sch(1,2) count_inv_update [OF assms(1) cinv] by (simp add: sched_inv_def)
  next
    assume "m_walkersInEvaluation ?s1 = 0
      \<and> view s' = (0, replicate (POPULATION_SIZE cfg) (False, 0))
      \<and> generations s' = Suc (generations s)"
    then show ?thesis by (simp add: fresh_round)
  qed
qed

lemma view_stepSimulation: "view (stepSimulation world s) = view s"
  using stepSimulation_obs [of world s] by (simp add: obs_def)

lemma move_slider_fixed [simp]:
  "POPULATION_SIZE (move_slider sl cfg) = POPULATION_SIZE cfg"
  "EVALUATION_DURATION (move_slider sl cfg) = EVALUATION_DURATION cfg"
  "REAP_QTY (move_slider sl cfg) = REAP_QTY cfg"
  "SOW_CROSSOVER_QTY (move_slider sl cfg) = SOW_CROSSOVER_QTY cfg"
  "SOW_ELITE_QTY (move_slider sl cfg) = SOW_ELITE_QTY cfg"
  "SOW_MUTATION_QTY (move_slider sl cfg) = SOW_MUTATION_QTY cfg"
  by (cases sl; simp)+

lemma sched_inv_move_slider [simp]:
  "count_inv (move_slider sl cfg) s = count_inv cfg s"
  "sched_inv (move_slider sl cfg) s = sched_inv cfg s"
  by (simp_all add: sched_inv_def count_inv_def settled_def)

lemma initPhysics_move_slider [simp]: "initPhysics (move_slider sl cfg) rnd = initPhysics cfg rnd"
  by (simp add: initPhysics_def)

lemma reachable_count_inv:
  assumes "reachable rnd past cfg s"
  shows "count_inv cfg s"
  using assms
proof (induction rule: reachable.induct)
  case (start cfg)
  have "sched_inv cfg (initPhysics cfg rnd)" by (rule fresh_round) (rule initPhysics_view)
  then show ?case by (simp add: sched_inv_def)
next
  case (tick past cfg s timeSinceLastTick s')
  then show ?case using count_inv_update by blast
next
  case (world past cfg s world)
  then show ?case by (simp add: count_inv_def view_stepSimulation stepSimulation_length)
next
  case (slider past cfg s sl)
  then show ?case by simp
qed

lemma reachable_sched_inv:
  assumes "reachable rnd past cfg s" and "0 < EVALUATION_DURATION cfg"
  shows "sched_inv cfg s"
  using assms
proof (induction rule: reachable.induct)
  case (start cfg)
  show ?case by (rule fresh_round) (rule initPhysics_view)
next
  case (tick past cfg s timeSinceLastTick s')
  then show ?case using sched_inv_update by blast
next
  case (world past cfg s world)
  then show ?case
    by (simp add: sched_inv_def count_inv_def view_stepSimulation stepSimulation_length)
next
  case (slider past cfg s sl)
  then show ?case by simp
qed

lemma reachable_bound:
  assumes "reachable rnd past cfg s"
    and "\<forall>c\<in>set (cfg # past). gParallelEvaluations c \<le> real_of_int G" and "0 \<le> G"
  shows "m_walkersInEvaluation s \<le> G"
  using assms
proof (induction rule: reachable.induct)
  case (start cfg)
  then show ?case using initPhysics_view(1) [of cfg rnd] by (simp add: view_def)
next
  case (tick past cfg s timeSinceLastTick s')
  let ?s1 = "schedule_loop cfg rnd (updateEvaluations cfg timeSinceLastTick s)"
  have cinv: "count_inv cfg s" using tick.hyps(1) by (rule reachable_count_inv)
  have G: "gParallelEvaluations cfg \<le> real_of_int G" using tick.prems(1) by simp
  have "fst (view ?s1) \<le> G"
    unfolding scheduled_count(3) [OF cinv]
    by (rule fold_slot_step_bound [OF G]) (use tick in \<open>simp add: view_def\<close>)
  then show ?case
    using update_cases [OF tick.hyps(2) cinv] tick.prems(2) by (auto simp: view_def)
next
  case (world past cfg s world)
  then show ?case using view_stepSimulation [of world s] by (simp add: view_def)
next
  case (slider past cfg s sl)
  then show ?case by simp
qed

section \<open>Reaping and sowing under the default quotas\<close>

lemma flag_slot_list:
  assumes "k < length ws"
  shows "(take (Suc k) ws @ map f (drop (Suc k) ws))[k := f (ws ! k)] = take k ws @ map f (drop k ws)"
proof -
  have "drop k ws = ws ! k # drop (Suc k) ws"
    using assms by (simp add: Cons_nth_drop_Suc)
  moreover have "take (Suc k) ws = take k ws @ [ws ! k]"
    using assms by (simp add: take_Suc_conv_app_nth)
  ultimately show ?thesis
    using assms by (simp add: list_update_append)
qed

lemma default_bounds:
  assumes "default_quotas cfg"
  shows "int (POPULATION_SIZE cfg) - 1 = 49"
    and "\<lceil>real_of_int (int (POPULATION_SIZE cfg) - 1) * (1 - REAP_QTY cfg)\<rceil> = 35"
    and "\<lceil>real (POPULATION_SIZE cfg) * SOW_CROSSOVER_QTY cfg\<rceil> = 10"
    and "trunc (real (POPULATION_SIZE cfg) * SOW_ELITE_QTY cfg) = 10"
    and "\<lceil>real (POPULATION_SIZE cfg) * (SOW_ELITE_QTY cfg + SOW_MUTATION_QTY cfg)\<rceil> = 35"
    and "\<lceil>real_of_int (int (POPULATION_SIZE cfg) - 1) * (REAP_QTY cfg - SOW_CROSSOVER_QTY cfg)\<rceil> = 5"
    and "trunc (real_of_int (int (POPULATION_SIZE cfg) - 1) * SOW_ELITE_QTY cfg * 0) = 0"
    and "trunc (real_of_int (int (POPULATION_SIZE cfg) - 1) * SOW_ELITE_QTY cfg * 1) = 9"
    and "trunc (real_of_int (int (POPULATION_SIZE cfg) - 1) * SOW_ELITE_QTY cfg
                 + real_of_int (int (POPULATION_SIZE cfg) - 1) * (1 - SOW_ELITE_QTY cfg) * 0) = 9"
    and "trunc (real_of_int (int (POPULATION_SIZE cfg) - 1) * SOW_ELITE_QTY cfg
                 + real_of_int (int (POPULATION_SIZE cfg) - 1) * (1 - SOW_ELITE_QTY cfg) * 1) = 49"
proof -
  have f: "POPULATION_SIZE cfg = 50" "REAP_QTY cfg = 3 / 10" "SOW_CROSSOVER_QTY cfg = 2 / 10"
    "SOW_ELITE_QTY cfg = 2 / 10" "SOW_MUTATION_QTY cfg = 5 / 10"
    using assms unfolding default_quotas_def by blast+
  show "int (POPULATION_SIZE cfg) - 1 = 49"
    and "\<lceil>real_of_int (int (POPULATION_SIZE cfg) - 1) * (1 - REAP_QTY cfg)\<rceil> = 35"
    and "\<lceil>real (POPULATION_SIZE cfg) * SOW_CROSSOVER_QTY cfg\<rceil> = 10"
    and "trunc (real (POPULATION_SIZE cfg) * SOW_ELITE_QTY cfg) = 10"
    and "\<lceil>real (POPULATION_SIZE cfg) * (SOW_ELITE_QTY cfg + SOW_MUTATION_QTY cfg)\<rceil> = 35"
    and "\<lceil>real_of_int (int (POPULATION_SIZE cfg) - 1) * (REAP_QTY cfg - SOW_CROSSOVER_QTY cfg)\<rceil> = 5"
    and "trunc (real_of_int (int (POPULATION_SIZE cfg) - 1) * SOW_ELITE_QTY cfg * 0) = 0"
    and "trunc (real_of_int (int (POPULATION_SIZE cfg) - 1) * SOW_ELITE_QTY cfg * 1) = 9"
    and "trunc (real_of_int (int (POPULATION_SIZE cfg) - 1) * SOW_ELITE_QTY cfg
                 + real_of_int (int (POPULATION_SIZE cfg) - 1) * (1 - SOW_ELITE_QTY cfg) * 0) = 9"
    and "trunc (real_of_int (int (POPULATION_SIZE cfg) - 1) * SOW_ELITE_QTY cfg
                 + real_of_int (int (POPULATION_SIZE cfg) - 1) * (1 - SOW_ELITE_QTY cfg) * 1) = 49"
    unfolding f trunc_def by simp_all
qed

lemma reap_default:
  assumes q: "default_quotas cfg" and len: "length (m_walkersInPopulation s) = 50"
  shows "reap cfg s = Inr (b3Printf (WalkersReaped 15)
           (s\<lparr>m_walkersInPopulation :=
                take 35 (m_walkersInPopulation s) @ map mark_reaped (drop 35 (m_walkersInPopulation s))\<rparr>))"
proof -
  let ?ws = "m_walkersInPopulation s"
  let ?hi = "int (POPULATION_SIZE cfg) - 1"
  let ?b = "real_of_int ?hi * (1 - REAP_QTY cfg)"
  let ?body = "\<lambda>i (reaped, s). bindE (slot_at (m_walkersInPopulation s) i)
                 (\<lambda>k. Inr (reaped + (1::int), set_walker k ((walker s k)\<lparr>m_reaped := True\<rparr>) s))"
  let ?I = "\<lambda>i (p :: int \<times> NN3DWalkersExample). 34 \<le> i \<and> i \<le> 49 \<and> fst p = 49 - i
              \<and> snd p = s\<lparr>m_walkersInPopulation :=
                   take (Suc (nat i)) ?ws @ map mark_reaped (drop (Suc (nat i)) ?ws)\<rparr>"
  note b = default_bounds(1,2) [OF q]
  have m: "min ?hi (\<lceil>?b\<rceil> - 1) = 34" by (simp only: b(2)) (simp add: b(1))
  have "\<exists>p'. for_downE ?hi ?b ?body (0, s) = Inr p' \<and> ?I (min ?hi (\<lceil>?b\<rceil> - 1)) p'"
  proof (rule for_downE_invariant [of ?I])
    show "?I ?hi (0, s)" using len by (simp add: b(1))
  next
    fix k :: int and p :: "int \<times> NN3DWalkersExample"
    assume k: "k \<le> ?hi" "?b \<le> real_of_int k" and I: "?I k p"
    obtain n t where p: "p = (n, t)" by (cases p)
    have "\<lceil>?b\<rceil> \<le> k" using k(2) ceiling_le_iff by blast
    then have k35: "35 \<le> k" by (simp only: b(2))
    have k49: "k \<le> 49" using k(1) by (simp only: b(1))
    have nk: "nat k < length ?ws" "nat (k - 1) = nat k - 1" "Suc (nat k - 1) = nat k"
      using k35 k49 len by simp_all
    have t: "t = s\<lparr>m_walkersInPopulation :=
                   take (Suc (nat k)) ?ws @ map mark_reaped (drop (Suc (nat k)) ?ws)\<rparr>"
      using I p by simp
    have at: "slot_at (m_walkersInPopulation t) k = Inr (nat k)"
      using k35 k49 len by (simp add: t slot_at_def)
    have w: "walker t (nat k) = ?ws ! nat k"
      using nk(1) by (simp add: t walker_def nth_append)
    have "?body k p = Inr (n + 1, set_walker (nat k) (mark_reaped (?ws ! nat k)) t)"
      by (simp add: p at w mark_reaped_def)
    moreover have "set_walker (nat k) (mark_reaped (?ws ! nat k)) t
            = s\<lparr>m_walkersInPopulation := take (nat k) ?ws @ map mark_reaped (drop (nat k) ?ws)\<rparr>"
      using flag_slot_list [OF nk(1), of mark_reaped] by (simp add: t set_walker_def)
    ultimately show "\<exists>p'. ?body k p = Inr p' \<and> ?I (k - 1) p'"
      using I p k35 k49 nk by simp
  qed
  then obtain p' where loop: "for_downE ?hi ?b ?body (0, s) = Inr p'" and I: "?I 34 p'"
    unfolding m by blast
  have "Suc (nat 34) = 35" by simp
  then have "p' = (15, s\<lparr>m_walkersInPopulation := take 35 ?ws @ map mark_reaped (drop 35 ?ws)\<rparr>)"
    using I by (cases p') simp
  then show ?thesis
    unfolding reap_def loop by simp
qed

lemma agree_refl [simp]: "agree P s s"
  by (simp add: agree_def)

lemma agree_trans:
  assumes "agree P s t" and "agree Q t u" and "\<And>k. R k \<Longrightarrow> P k \<and> Q k"
  shows "agree R s u"
  using assms by (auto simp: agree_def)

lemma agree_randCalls [simp]: "agree P s (t\<lparr>randCalls := n\<rparr>) = agree P s t"
  by (simp add: agree_def walker_def)

lemma agree_nextReaped [simp]: "agree P s (t\<lparr>m_nextReapedIndex := n\<rparr>) = agree P s t"
  by (simp add: agree_def walker_def)

lemma agree_set_walker:
  assumes "\<not> P c"
  shows "agree P s (set_walker c w s)"
proof -
  have "(m_walkersInPopulation s)[c := w] ! k = m_walkersInPopulation s ! k" if "P k" for k
    using that assms by (cases "k = c") simp_all
  then show ?thesis by (simp add: agree_def set_walker_def walker_def)
qed

lemma agree_set_weight:
  assumes "\<not> P c"
  shows "agree P s (set_weight c i v s)"
  using assms by (simp add: set_weight_def agree_set_walker)

lemma agree_step:
  assumes "agree P s t" and "\<not> P c"
  shows "agree P s (set_weight c i v t)"
  by (rule agree_trans [OF assms(1) agree_set_weight [of P c, OF assms(2)]]) simp

lemma nextReaped_set_weight [simp]:
  "m_nextReapedIndex (set_weight c i v s) = m_nextReapedIndex s"
  by (simp add: set_weight_def set_walker_def)

lemma rand_quot_cases: "rand_quot rnd n = 0 \<or> rand_quot rnd n = 1"
proof -
  have "rand rnd n \<le> RAND_MAX" by (simp add: rand_def)
  then have "rand rnd n div RAND_MAX \<le> RAND_MAX div RAND_MAX" by (rule div_le_mono)
  then have "rand_quot rnd n \<le> 1" by (simp add: rand_quot_def RAND_MAX_def)
  then show ?thesis by linarith
qed

lemma elite_slot:
  assumes "default_quotas cfg" and "r = 0 \<or> r = 1"
  shows "trunc (real_of_int (int (POPULATION_SIZE cfg) - 1) * SOW_ELITE_QTY cfg * real r)
           = (if r = 0 then 0 else 9)"
  using assms(2) default_bounds(7,8) [OF assms(1)] by auto

lemma non_elite_slot:
  assumes "default_quotas cfg" and "r = 0 \<or> r = 1"
  shows "trunc (real_of_int (int (POPULATION_SIZE cfg) - 1) * SOW_ELITE_QTY cfg
                 + real_of_int (int (POPULATION_SIZE cfg) - 1) * (1 - SOW_ELITE_QTY cfg) * real r)
           = (if r = 0 then 9 else 49)"
  using assms(2) default_bounds(9,10) [OF assms(1)] by auto

lemma getNextReaped_default:
  assumes q: "default_quotas cfg" and len: "length (m_walkersInPopulation s) = 50"
    and idx: "0 \<le> m_nextReapedIndex s" "m_nextReapedIndex s \<le> 14"
    and flag: "m_reaped (walker s (nat (49 - m_nextReapedIndex s)))"
  shows "getNextReaped cfg s
           = Inr (Some (nat (49 - m_nextReapedIndex s)),
                  s\<lparr>m_nextReapedIndex := m_nextReapedIndex s + 1\<rparr>)"
proof -
  let ?hi = "int (POPULATION_SIZE cfg) - 1"
  let ?b = "real_of_int ?hi * (1 - REAP_QTY cfg)"
  note b = default_bounds(1,2) [OF q]
  have "\<lceil>?b\<rceil> \<le> ?hi - m_nextReapedIndex s"
    using idx by (simp only: b(2)) (simp add: b(1))
  then have c: "?b \<le> real_of_int (?hi - m_nextReapedIndex s)"
    by (simp only: ceiling_le_iff)
  have s1: "(if ?b \<le> real_of_int (?hi - m_nextReapedIndex s)
             then s\<lparr>m_nextReapedIndex := m_nextReapedIndex s + 1\<rparr> else s)
            = s\<lparr>m_nextReapedIndex := m_nextReapedIndex s + 1\<rparr>"
    by (simp only: c if_True)
  have N: "POPULATION_SIZE cfg = 50" using q by (simp add: default_quotas_def)
  show ?thesis
    unfolding getNextReaped_def Let_def s1
    using flag idx len by (simp add: N slot_at_def walker_def)
qed

lemma crossover_Some:
  "\<exists>t'. crossover rnd mother father (Some c) t = Inr t'
        \<and> agree (\<lambda>k. k \<noteq> c) t t' \<and> m_nextReapedIndex t' = m_nextReapedIndex t"
proof -
  let ?I = "\<lambda>(i::int) u. agree (\<lambda>k. k \<noteq> c) t u \<and> m_nextReapedIndex u = m_nextReapedIndex t"
  have "\<exists>t'. crossover rnd mother father (Some c) t = Inr t'
          \<and> ?I (max 0 \<lceil>real (BODYPART_COUNT * JOINT_COUNT)\<rceil>) t'"
    unfolding crossover_def
  proof (rule for_upE_invariant [of ?I])
    show "?I 0 t" by simp
  next
    fix k :: int and u
    assume I: "?I k u"
    have step: "agree (\<lambda>k. k \<noteq> c) t (set_weight c i v (u\<lparr>randCalls := n\<rparr>))" for i v n
      by (rule agree_step) (use I in simp_all)
    show "\<exists>t'. (let random = rand_unit rnd (randCalls u); s1 = u\<lparr>randCalls := randCalls u + 1\<rparr>
                in case Some c of None \<Rightarrow> Inl NullPointer
                   | Some c \<Rightarrow>
                       if 5 / 10 \<le> random
                       then Inr (set_weight c (nat k) (m_sensoryMotorWeights (walker s1 mother) ! nat k) s1)
                       else Inr (set_weight c (nat k) (m_sensoryMotorWeights (walker s1 father) ! nat k) s1))
                = Inr t' \<and> ?I (k + 1) t'"
      using I step by (simp add: Let_def)
  qed
  then show ?thesis by blast
qed

lemma mutate_frame:
  "agree (\<lambda>k. k \<noteq> m) s (mutate rnd m rate s)"
  "m_nextReapedIndex (mutate rnd m rate s) = m_nextReapedIndex s"
proof -
  let ?body = "\<lambda>(i::int) s.
       let random = rand_unit rnd (randCalls s);
           s1 = s\<lparr>randCalls := randCalls s + 1\<rparr>
       in if rate \<le> random
          then set_weight m (nat i) (rand_weight rnd (randCalls s1)) (s1\<lparr>randCalls := randCalls s1 + 1\<rparr>)
          else s1"
  have "agree (\<lambda>k. k \<noteq> m) s (fold ?body ks t) \<and> m_nextReapedIndex (fold ?body ks t) = m_nextReapedIndex s"
    if "agree (\<lambda>k. k \<noteq> m) s t \<and> m_nextReapedIndex t = m_nextReapedIndex s" for ks t
    using that
  proof (induction ks arbitrary: t)
    case Nil
    then show ?case by simp
  next
    case (Cons i ks)
    have "agree (\<lambda>k. k \<noteq> m) s (set_weight m j v (t\<lparr>randCalls := n\<rparr>))" for j v n
      by (rule agree_step) (use Cons.prems in simp_all)
    then have "agree (\<lambda>k. k \<noteq> m) s (?body i t) \<and> m_nextReapedIndex (?body i t) = m_nextReapedIndex s"
      using Cons.prems by (simp add: Let_def)
    then show ?case using Cons.IH by simp
  qed
  from this [of s] show "agree (\<lambda>k. k \<noteq> m) s (mutate rnd m rate s)"
    and "m_nextReapedIndex (mutate rnd m rate s) = m_nextReapedIndex s"
    by (simp_all add: mutate_def for_up_upto)
qed

lemma getRandomElite_eq:
  assumes q: "default_quotas cfg" and len: "length (m_walkersInPopulation s) = 50"
  shows "getRandomElite cfg rnd s
           = Inr (if rand_quot rnd (randCalls s) = 0 then 0 else 9, s\<lparr>randCalls := randCalls s + 1\<rparr>)"
  unfolding getRandomElite_def Let_def elite_slot [OF q rand_quot_cases]
  using len by (simp add: slot_at_def)

lemma getRandomNonElite_eq:
  assumes q: "default_quotas cfg" and len: "length (m_walkersInPopulation s) = 50"
  shows "getRandomNonElite cfg rnd s
           = Inr (if rand_quot rnd (randCalls s) = 0 then 9 else 49, s\<lparr>randCalls := randCalls s + 1\<rparr>)"
  unfolding getRandomNonElite_def Let_def non_elite_slot [OF q rand_quot_cases]
  using len by (simp add: slot_at_def)

lemma agree_length: "agree P s t \<Longrightarrow> length (m_walkersInPopulation t) = length (m_walkersInPopulation s)"
  by (simp add: agree_def)

lemma agree_walker: "agree P s t \<Longrightarrow> P k \<Longrightarrow> walker t k = walker s k"
  by (simp add: agree_def)

lemma sow_crossover_default:
  assumes q: "default_quotas cfg" and len: "length (m_walkersInPopulation s) = 50"
    and idx0: "m_nextReapedIndex s = 0"
    and flags: "\<forall>k. 35 \<le> k \<and> k < 50 \<longrightarrow> m_reaped (walker s k)"
  shows "\<exists>t. sow_crossover cfg rnd (0, s) = Inr (10, t)
            \<and> m_nextReapedIndex t = 10 \<and> agree (\<lambda>k. k < 40) s t"
proof -
  let ?b = "real (POPULATION_SIZE cfg) * SOW_CROSSOVER_QTY cfg"
  let ?body = "\<lambda>(i::int) (cnt :: int, s).
       bindE (getRandomElite cfg rnd s) (\<lambda>(mother, s1).
       let q = rand_quot rnd (randCalls s1);
           s2 = s1\<lparr>randCalls := randCalls s1 + 1\<rparr>
       in bindE (if SOW_ELITE_PARTNER cfg < real q then getRandomElite cfg rnd s2
                 else getRandomNonElite cfg rnd s2) (\<lambda>(father, s3).
          bindE (getNextReaped cfg s3) (\<lambda>(offspring, s4).
          bindE (crossover rnd mother father offspring s4) (\<lambda>s5. Inr (cnt + 1, s5)))))"
  let ?I = "\<lambda>i (p :: int \<times> NN3DWalkersExample). 0 \<le> i \<and> i \<le> 10 \<and> fst p = i
              \<and> m_nextReapedIndex (snd p) = i \<and> agree (\<lambda>k. int k < 50 - i) s (snd p)"
  have b: "\<lceil>?b\<rceil> = 10" by (rule default_bounds(3) [OF q])
  have "\<exists>p'. for_upE 0 ?b ?body (0, s) = Inr p' \<and> ?I (max 0 \<lceil>?b\<rceil>) p'"
  proof (rule for_upE_invariant [of ?I])
    show "?I 0 (0, s)" using idx0 by simp
  next
    fix i :: int and p :: "int \<times> NN3DWalkersExample"
    assume i0: "0 \<le> i" and ib: "real_of_int i < ?b" and I: "?I i p"
    obtain n t where p: "p = (n, t)" by (cases p)
    have "i < \<lceil>?b\<rceil>" using ib by (simp only: less_ceiling_iff)
    then have i9: "i \<le> 9" by (simp only: b)
    have ag: "agree (\<lambda>k. int k < 50 - i) s t" and n: "n = i" and ti: "m_nextReapedIndex t = i"
      using I p by simp_all
    have tlen: "length (m_walkersInPopulation t) = 50"
      using agree_length [OF ag] len by simp
    let ?c = "nat (49 - i)"
    have "walker t ?c = walker s ?c"
      using i0 i9 by (intro agree_walker [OF ag]) simp
    moreover have "35 \<le> ?c \<and> ?c < 50" using i0 i9 by linarith
    ultimately have flag: "m_reaped (walker t ?c)"
      using flags by simp
    let ?m = "if rand_quot rnd (randCalls t) = 0 then 0 else 9 :: nat"
    let ?t1 = "t\<lparr>randCalls := randCalls t + 1\<rparr>"
    let ?t2 = "?t1\<lparr>randCalls := randCalls ?t1 + 1\<rparr>"
    let ?t3 = "?t2\<lparr>randCalls := randCalls ?t2 + 1\<rparr>"
    let ?t4 = "?t3\<lparr>m_nextReapedIndex := m_nextReapedIndex ?t3 + 1\<rparr>"
    have A: "getRandomElite cfg rnd t = Inr (?m, ?t1)"
      by (rule getRandomElite_eq [OF q tlen])
    have len2: "length (m_walkersInPopulation ?t2) = 50" using tlen by simp
    obtain f where F: "(if SOW_ELITE_PARTNER cfg < real (rand_quot rnd (randCalls ?t1))
                        then getRandomElite cfg rnd ?t2 else getRandomNonElite cfg rnd ?t2)
                       = Inr (f, ?t3)"
      using getRandomElite_eq [OF q len2, of rnd] getRandomNonElite_eq [OF q len2, of rnd]
      by (cases "SOW_ELITE_PARTNER cfg < real (rand_quot rnd (randCalls ?t1))") simp_all
    have G: "getNextReaped cfg ?t3 = Inr (Some (nat (49 - m_nextReapedIndex ?t3)), ?t4)"
      by (rule getNextReaped_default [OF q]) (use tlen ti i0 i9 flag in \<open>simp_all add: walker_def\<close>)
    have c: "nat (49 - m_nextReapedIndex ?t3) = ?c" using ti by simp
    obtain t5 where t5: "crossover rnd ?m f (Some ?c) ?t4 = Inr t5"
      and a5: "agree (\<lambda>k. k \<noteq> ?c) ?t4 t5" and i5: "m_nextReapedIndex t5 = m_nextReapedIndex ?t4"
      using crossover_Some [of rnd ?m f ?c ?t4] by blast
    have body: "?body i p = Inr (n + 1, t5)"
      unfolding p prod.case A bindE.simps Let_def F G c t5 ..
    have "agree (\<lambda>k. int k < 50 - i) s ?t4" using ag by simp
    then have "agree (\<lambda>k. int k < 50 - (i + 1)) s t5"
      by (rule agree_trans [OF _ a5]) (use i0 i9 in auto)
    then have "?I (i + 1) (n + 1, t5)"
      using i5 i0 i9 ti n by simp
    then show "\<exists>p'. ?body i p = Inr p' \<and> ?I (i + 1) p'"
      using body by blast
  qed
  then obtain p' where loop: "for_upE 0 ?b ?body (0, s) = Inr p'" and I: "?I 10 p'"
    unfolding b by auto
  have "sow_crossover cfg rnd (0, s) = Inr p'"
    unfolding sow_crossover_def by (rule loop)
  then show ?thesis using I by (cases p') (auto simp: agree_def)
qed

lemma agree_walker_step:
  assumes "agree P s t" and "\<not> P c"
  shows "agree P s (set_walker c w t)"
  by (rule agree_trans [OF assms(1) agree_set_walker [of P c, OF assms(2)]]) simp

lemma sow_mutants_default:
  assumes q: "default_quotas cfg" and len: "length (m_walkersInPopulation s) = 50"
  shows "\<exists>t. sow_mutants cfg rnd s = Inr t
            \<and> m_nextReapedIndex t = m_nextReapedIndex s \<and> agree (\<lambda>k. k < 10 \<or> 35 \<le> k) s t"
proof -
  let ?lo = "trunc (real (POPULATION_SIZE cfg) * SOW_ELITE_QTY cfg)"
  let ?b = "real (POPULATION_SIZE cfg) * (SOW_ELITE_QTY cfg + SOW_MUTATION_QTY cfg)"
  let ?body = "\<lambda>(i::int) s. bindE (slot_at (m_walkersInPopulation s) i)
                 (\<lambda>k. Inr (mutate rnd k (mutation_rate cfg i) s))"
  let ?I = "\<lambda>(i::int) t. m_nextReapedIndex t = m_nextReapedIndex s
              \<and> agree (\<lambda>k. k < 10 \<or> 35 \<le> k) s t"
  have lo: "?lo = 10" by (rule default_bounds(4) [OF q])
  have b: "\<lceil>?b\<rceil> = 35" by (rule default_bounds(5) [OF q])
  have "\<exists>t. for_upE ?lo ?b ?body s = Inr t \<and> ?I (max ?lo \<lceil>?b\<rceil>) t"
  proof (rule for_upE_invariant [of ?I])
    show "?I ?lo s" by simp
  next
    fix i :: int and t
    assume il: "?lo \<le> i" and ib: "real_of_int i < ?b" and I: "?I i t"
    have i10: "10 \<le> i" using il by (simp only: lo)
    have "i < \<lceil>?b\<rceil>" using ib by (simp only: less_ceiling_iff)
    then have i34: "i \<le> 34" by (simp only: b)
    have "agree (\<lambda>k. k < 10 \<or> 35 \<le> k) s t" using I by simp
    then have tlen: "length (m_walkersInPopulation t) = 50"
      using len by (simp add: agree_length)
    have at: "slot_at (m_walkersInPopulation t) i = Inr (nat i)"
      using i10 i34 tlen by (simp add: slot_at_def)
    let ?t' = "mutate rnd (nat i) (mutation_rate cfg i) t"
    have body: "?body i t = Inr ?t'" by (simp add: at)
    have "agree (\<lambda>k. k < 10 \<or> 35 \<le> k) s ?t'"
      by (rule agree_trans [OF _ mutate_frame(1) [of "nat i" t rnd "mutation_rate cfg i"]])
         (use I i10 i34 in auto)
    then have "?I (i + 1) ?t'" using I by (simp add: mutate_frame(2))
    then show "\<exists>t'. ?body i t = Inr t' \<and> ?I (i + 1) t'" using body by blast
  qed
  then show ?thesis unfolding sow_mutants_def by blast
qed

lemma sow_random_default:
  assumes q: "default_quotas cfg" and len: "length (m_walkersInPopulation s) = 50"
    and idx: "m_nextReapedIndex s = 10"
    and flags: "\<forall>k. 35 \<le> k \<and> k < 40 \<longrightarrow> m_reaped (walker s k)"
  shows "\<exists>t. sow_random cfg rnd (n0, s) = Inr (n0 + 5, t)
            \<and> m_nextReapedIndex t = 15 \<and> agree (\<lambda>k. k < 35) s t"
proof -
  let ?b = "real_of_int (int (POPULATION_SIZE cfg) - 1) * (REAP_QTY cfg - SOW_CROSSOVER_QTY cfg)"
  let ?body = "\<lambda>(i::int) (cnt :: int, s).
          bindE (getNextReaped cfg s) (\<lambda>(reaped, s1).
            case reaped of
              None \<Rightarrow> Inl NullPointer
            | Some k \<Rightarrow>
                (let s2 = set_walker k ((walker s1 k)\<lparr>m_reaped := False\<rparr>) s1;
                     (ws, n) = randomizeSensoryMotorWeights rnd
                                 (m_sensoryMotorWeights (walker s2 k), randCalls s2)
                 in Inr (cnt + 1,
                      set_walker k ((walker s2 k)\<lparr>m_sensoryMotorWeights := ws\<rparr>) (s2\<lparr>randCalls := n\<rparr>))))"
  let ?I = "\<lambda>i (p :: int \<times> NN3DWalkersExample). 0 \<le> i \<and> i \<le> 5 \<and> fst p = n0 + i
              \<and> m_nextReapedIndex (snd p) = 10 + i \<and> agree (\<lambda>k. int k < 40 - i) s (snd p)"
  have b: "\<lceil>?b\<rceil> = 5" by (rule default_bounds(6) [OF q])
  have "\<exists>p'. for_upE 0 ?b ?body (n0, s) = Inr p' \<and> ?I (max 0 \<lceil>?b\<rceil>) p'"
  proof (rule for_upE_invariant [of ?I])
    show "?I 0 (n0, s)" using idx by simp
  next
    fix i :: int and p :: "int \<times> NN3DWalkersExample"
    assume i0: "0 \<le> i" and ib: "real_of_int i < ?b" and I: "?I i p"
    obtain n t where p: "p = (n, t)" by (cases p)
    have "i < \<lceil>?b\<rceil>" using ib by (simp only: less_ceiling_iff)
    then have i4: "i \<le> 4" by (simp only: b)
    have ag: "agree (\<lambda>k. int k < 40 - i) s t" and n: "n = n0 + i"
      and ti: "m_nextReapedIndex t = 10 + i"
      using I p by simp_all
    have tlen: "length (m_walkersInPopulation t) = 50"
      using agree_length [OF ag] len by simp
    let ?c = "nat (39 - i)"
    have "walker t ?c = walker s ?c"
      using i0 i4 by (intro agree_walker [OF ag]) simp
    moreover have "35 \<le> ?c \<and> ?c < 40" using i0 i4 by linarith
    ultimately have flag: "m_reaped (walker t ?c)"
      using flags by simp
    let ?t1 = "t\<lparr>m_nextReapedIndex := m_nextReapedIndex t + 1\<rparr>"
    have c: "nat (49 - m_nextReapedIndex t) = ?c" using ti by simp
    have G: "getNextReaped cfg t = Inr (Some (nat (49 - m_nextReapedIndex t)), ?t1)"
      by (rule getNextReaped_default [OF q tlen]) (use ti i0 i4 flag c in simp_all)
    let ?s2 = "set_walker ?c ((walker ?t1 ?c)\<lparr>m_reaped := False\<rparr>) ?t1"
    let ?r = "randomizeSensoryMotorWeights rnd (m_sensoryMotorWeights (walker ?s2 ?c), randCalls ?s2)"
    let ?t' = "set_walker ?c ((walker ?s2 ?c)\<lparr>m_sensoryMotorWeights := fst ?r\<rparr>) (?s2\<lparr>randCalls := snd ?r\<rparr>)"
    have body: "?body i p = Inr (n + 1, ?t')"
      by (simp add: p G c Let_def split_beta)
    have "agree (\<lambda>k. k \<noteq> ?c) t ?t1" by simp
    then have "agree (\<lambda>k. k \<noteq> ?c) t ?s2"
      by (rule agree_walker_step) simp
    then have "agree (\<lambda>k. k \<noteq> ?c) t (?s2\<lparr>randCalls := snd ?r\<rparr>)" by simp
    then have "agree (\<lambda>k. k \<noteq> ?c) t ?t'"
      by (rule agree_walker_step) simp
    then have "agree (\<lambda>k. int k < 40 - (i + 1)) s ?t'"
      by (rule agree_trans [OF ag]) (use i0 i4 in auto)
    moreover have "m_nextReapedIndex ?t' = 10 + (i + 1)"
      using ti by (simp add: set_walker_def)
    ultimately have "?I (i + 1) (n + 1, ?t')"
      using i0 i4 n by simp
    then show "\<exists>p'. ?body i p = Inr p' \<and> ?I (i + 1) p'"
      using body by blast
  qed
  then obtain p' where loop: "for_upE 0 ?b ?body (n0, s) = Inr p'" and I: "?I 5 p'"
    unfolding b by auto
  have "sow_random cfg rnd (n0, s) = Inr p'"
    unfolding sow_random_def by (rule loop)
  then show ?thesis using I by (cases p') (auto simp: agree_def)
qed

lemma sow_default:
  assumes q: "default_quotas cfg" and len: "length (m_walkersInPopulation s) = 50"
    and idx0: "m_nextReapedIndex s = 0"
    and flags: "\<forall>k. 35 \<le> k \<and> k < 50 \<longrightarrow> m_reaped (walker s k)"
  shows "\<exists>t. sow cfg rnd s = Inr t
            \<and> length (m_walkersInPopulation t) = 50
            \<and> (\<forall>k<10. walker t k = walker s k)
            \<and> m_nextReapedIndex t = 15
            \<and> console t = console s @ [WalkersSown 15]"
proof -
  obtain t1 where c: "sow_crossover cfg rnd (0, s) = Inr (10, t1)"
    and i1: "m_nextReapedIndex t1 = 10" and a1: "agree (\<lambda>k. k < 40) s t1"
    using sow_crossover_default [OF q len idx0 flags] by blast
  have len1: "length (m_walkersInPopulation t1) = 50"
    using agree_length [OF a1] len by simp
  obtain t2 where m: "sow_mutants cfg rnd t1 = Inr t2"
    and i2: "m_nextReapedIndex t2 = m_nextReapedIndex t1"
    and a2: "agree (\<lambda>k. k < 10 \<or> 35 \<le> k) t1 t2"
    using sow_mutants_default [OF q len1] by blast
  have len2: "length (m_walkersInPopulation t2) = 50"
    using agree_length [OF a2] len1 by simp
  have flags2: "\<forall>k. 35 \<le> k \<and> k < 40 \<longrightarrow> m_reaped (walker t2 k)"
    using flags agree_walker [OF a1] agree_walker [OF a2] by simp
  obtain t3 where r: "sow_random cfg rnd (10, t2) = Inr (10 + 5, t3)"
    and i3: "m_nextReapedIndex t3 = 15" and a3: "agree (\<lambda>k. k < 35) t2 t3"
    using sow_random_default [OF q len2 _ flags2, of rnd 10] i1 i2 by auto
  have "agree (\<lambda>k. k < 10) s t2"
    by (rule agree_trans [OF a1 a2]) simp
  then have a: "agree (\<lambda>k. k < 10) s t3"
    by (rule agree_trans [OF _ a3]) simp
  have "sow cfg rnd s = Inr (b3Printf (WalkersSown 15) t3)"
    unfolding sow_def c bindE.simps prod.case m r by simp
  then show ?thesis
    using a i3 len by (simp add: agree_def b3Printf_def walker_def)
qed

section \<open>Passes of the scheduling loop\<close>

lemma first_pass:
  assumes G: "gParallelEvaluations cfg = real G" and k: "k \<le> N"
  shows "fold (slot_step cfg) [0..<k] (0, replicate N (False, 0))
           = (int (min k G), replicate (min k G) (True, 0) @ replicate (N - min k G) (False, 0))"
  using k
proof (induction k)
  case 0
  show ?case by simp
next
  case (Suc k)
  let ?m = "min k G"
  let ?vs = "replicate ?m (True, 0::real) @ replicate (N - ?m) (False, 0)"
  have IH: "fold (slot_step cfg) [0..<k] (0, replicate N (False, 0)) = (int ?m, ?vs)"
    using Suc by simp
  have kN: "k < N" using Suc.prems by simp
  have at: "?vs ! k = (False, 0)" using kN by (simp add: nth_append)
  have step: "slot_step cfg k (int ?m, ?vs)
                = (int (min (Suc k) G),
                   replicate (min (Suc k) G) (True, 0) @ replicate (N - min (Suc k) G) (False, 0))"
  proof (cases "k < G")
    case True
    then have m: "?m = k" "min (Suc k) G = Suc k" by simp_all
    have "replicate (N - k) (False, 0::real) = (False, 0) # replicate (N - Suc k) (False, 0)"
      using kN by (cases "N - k") (simp_all add: Suc_diff_Suc)
    then have "?vs[k := (True, 0)]
                 = replicate (Suc k) (True, 0) @ replicate (N - Suc k) (False, 0)"
      by (simp add: m list_update_append replicate_append_same)
    moreover have "slot_step cfg k (int ?m, ?vs) = (int ?m + 1, ?vs[k := (True, 0)])"
      using at True G by (simp add: slot_step_def Let_def m)
    ultimately show ?thesis by (simp add: m)
  next
    case False
    then have m: "?m = G" "min (Suc k) G = G" by simp_all
    have "slot_step cfg k (int ?m, ?vs) = (int ?m, ?vs[k := (False, 0)])"
      using at False G by (simp add: slot_step_def Let_def m)
    moreover have "?vs[k := (False, 0)] = ?vs" by (rule list_update_known) (rule at)
    ultimately show ?thesis by (simp add: m)
  qed
  show ?case using IH step by simp
qed

lemma last_pass:
  assumes D: "EVALUATION_DURATION cfg \<le> t" and t: "t \<noteq> 0" and k: "k \<le> N"
  shows "fold (slot_step cfg) [0..<k] (int N, replicate N (True, t))
           = (int N - int k, replicate k (False, t) @ replicate (N - k) (True, t))"
  using k
proof (induction k)
  case 0
  show ?case by simp
next
  case (Suc k)
  let ?vs = "replicate k (False, t) @ replicate (N - k) (True, t)"
  have IH: "fold (slot_step cfg) [0..<k] (int N, replicate N (True, t)) = (int N - int k, ?vs)"
    using Suc by simp
  have kN: "k < N" using Suc.prems by simp
  have at: "?vs ! k = (True, t)" using kN by (simp add: nth_append)
  have "replicate (N - k) (True, t) = (True, t) # replicate (N - Suc k) (True, t)"
    using kN by (cases "N - k") (simp_all add: Suc_diff_Suc)
  then have "?vs[k := (False, t)] = replicate (Suc k) (False, t) @ replicate (N - Suc k) (True, t)"
    by (simp add: list_update_append replicate_append_same)
  moreover have "slot_step cfg k (int N - int k, ?vs) = (int N - int k - 1, ?vs[k := (False, t)])"
    using at D t by (simp add: slot_step_def Let_def)
  ultimately show ?case using IH by simp
qed

lemma rateEvaluations_console:
  assumes "rateEvaluations cfg s = Inr s'"
    and "length (m_walkersInPopulation s) = POPULATION_SIZE cfg"
  shows "console s' = console s @ [BestPerformingWalker (sqrt (getDistanceFitness (walker s' 0)))]
       \<or> console s' = console s @ [BestPerformingWalker (sqrt (getDistanceFitness (walker s' 0))), NotDeterministic]"
proof -
  let ?ws = "quickSort fitnessComparator (m_walkersInPopulation s)"
  let ?s1 = "s\<lparr>m_walkersInPopulation := ?ws\<rparr>"
  let ?loop = "for_up 0 (real (POPULATION_SIZE cfg))
                 (\<lambda>i t. set_walker (nat i) ((walker t (nat i))\<lparr>m_evaluationTime := 0\<rparr>) t)"
  have keep: "console (?loop t) = console t" for t
    by (rule for_up_keeps) (simp add: set_walker_def)
  from assms(1) have pos: "0 < length ?ws"
    unfolding rateEvaluations_def Let_def
    by (auto simp: bindE_Inr_iff slot_at_def split: if_splits)
  have w0: "walker s' 0 = (?ws ! 0)\<lparr>m_evaluationTime := 0\<rparr>"
    using rateEvaluations_Inr(1) [OF assms] pos by (simp add: walker_def)
  have b: "getDistanceFitness (walker s' 0) = getDistanceFitness (?ws ! 0)"
    by (simp add: w0 getDistanceFitness_def getPosition_def)
  from assms(1) obtain u where u: "s' = (?loop u)\<lparr>m_nextReapedIndex := 0\<rparr>"
    and c: "console u = console s @ [BestPerformingWalker (sqrt (getDistanceFitness (?ws ! 0)))]
          \<or> console u = console s @ [BestPerformingWalker (sqrt (getDistanceFitness (?ws ! 0))), NotDeterministic]"
    unfolding rateEvaluations_def Let_def
    by (auto simp: bindE_Inr_iff slot_at_def b3Printf_def walker_def split: if_splits)
  have "console s' = console u" by (simp add: u keep)
  then show ?thesis using c by (simp add: b)
qed

lemma filter_sched_view:
  "length (filter fst (map sched_view ws)) = length (filter m_inEvaluation ws)"
proof -
  have "fst \<circ> sched_view = m_inEvaluation" by (rule ext) (simp add: sched_view_def)
  then show ?thesis by (simp add: filter_map)
qed

lemma list_all_sched_view:
  "list_all P (map sched_view ws) = list_all (\<lambda>w. P (m_inEvaluation w, m_evaluationTime w)) ws"
  by (simp add: list_all_iff sched_view_def)

section \<open>The sample inputs\<close>

lemma default_quotas_default [simp]: "default_quotas default_config"
  by (simp add: default_quotas_def default_config_def)

lemma sample_population_length [simp]: "length (m_walkersInPopulation sample_population) = 50"
  by (simp add: sample_population_def)

lemma sample_population_walker: "k < 50 \<Longrightarrow> walker sample_population k = sample_walker"
  by (simp add: sample_population_def walker_def)

section \<open>Mutation\<close>

lemma rand_unit_nonneg: "0 \<le> rand_unit rnd n"
  by (simp add: rand_unit_def)

lemma replace_next:
  assumes "length xs = k" and "k < length ws"
  shows "(xs @ drop k ws)[k := v] = (xs @ [v]) @ drop (Suc k) ws"
proof -
  have "drop k ws = ws ! k # drop (Suc k) ws"
    using assms(2) by (simp add: Cons_nth_drop_Suc)
  then show ?thesis using assms(1) by (simp add: list_update_append)
qed

lemma walker_set_weight:
  assumes "m < length (m_walkersInPopulation s)"
  shows "m_sensoryMotorWeights (walker (set_weight m i v s) m) = (m_sensoryMotorWeights (walker s m))[i := v]"
  using assms by (simp add: set_weight_def set_walker_def walker_def)

lemma length_set_weight [simp]:
  "length (m_walkersInPopulation (set_weight m i v s)) = length (m_walkersInPopulation s)"
  by (simp add: set_weight_def set_walker_def)

lemma randCalls_set_weight [simp]: "randCalls (set_weight m i v s) = randCalls s"
  by (simp add: set_weight_def set_walker_def)

text \<open>With a rate that is not positive, \<^verbatim>\<open>mutate\<close> replaces every weight.\<close>

lemma mutate_replaces_all:
  assumes rate: "rate \<le> 0" and m: "m < length (m_walkersInPopulation s)"
    and len: "length (m_sensoryMotorWeights (walker s m)) = BODYPART_COUNT * JOINT_COUNT"
  shows "m_sensoryMotorWeights (walker (mutate rnd m rate s) m)
           = map (\<lambda>i. rand_weight rnd (randCalls s + 2 * i + 1)) [0..<BODYPART_COUNT * JOINT_COUNT]"
proof -
  let ?n = "BODYPART_COUNT * JOINT_COUNT"
  let ?W = "m_sensoryMotorWeights (walker s m)"
  let ?f = "\<lambda>i. rand_weight rnd (randCalls s + 2 * i + 1)"
  let ?body = "\<lambda>k s.
       let random = rand_unit rnd (randCalls s);
           s1 = s\<lparr>randCalls := randCalls s + 1\<rparr>
       in if rate \<le> random
          then set_weight m (nat (int k)) (rand_weight rnd (randCalls s1)) (s1\<lparr>randCalls := randCalls s1 + 1\<rparr>)
          else s1"
  let ?I = "\<lambda>k t. randCalls t = randCalls s + 2 * k
              \<and> length (m_walkersInPopulation t) = length (m_walkersInPopulation s)
              \<and> m_sensoryMotorWeights (walker t m) = map ?f [0..<k] @ drop k ?W"
  have "?I ?n (fold ?body [0..<?n] s)"
  proof (rule fold_upt_invariant [of ?I s ?n ?body])
    show "?I 0 s" by simp
  next
    fix k t assume k: "k < ?n" and I: "?I k t"
    have hit: "rate \<le> rand_unit rnd (randCalls t)"
      using rate rand_unit_nonneg [of rnd "randCalls t"] by linarith
    let ?t' = "set_weight m k (rand_weight rnd (randCalls t + 1)) (t\<lparr>randCalls := randCalls t + 2\<rparr>)"
    have body: "?body k t = ?t'" using hit by (simp add: Let_def)
    have mt: "m < length (m_walkersInPopulation (t\<lparr>randCalls := randCalls t + 2\<rparr>))"
      using I m by simp
    have "m_sensoryMotorWeights (walker ?t' m)
            = (m_sensoryMotorWeights (walker (t\<lparr>randCalls := randCalls t + 2\<rparr>) m))
                [k := rand_weight rnd (randCalls t + 1)]"
      by (rule walker_set_weight [OF mt])
    also have "\<dots> = (map ?f [0..<k] @ drop k ?W)[k := ?f k]"
      using I by simp
    also have "\<dots> = (map ?f [0..<k] @ [?f k]) @ drop (Suc k) ?W"
      by (rule replace_next) (use k len in simp_all)
    finally have "m_sensoryMotorWeights (walker ?t' m) = map ?f [0..<Suc k] @ drop (Suc k) ?W"
      by simp
    then show "?I (Suc k) (?body k t)"
      unfolding body using I by simp
  qed
  moreover have "mutate rnd m rate s = fold ?body [0..<?n] s"
    unfolding mutate_def for_up_nat ..
  ultimately show ?thesis using len by simp
qed

text \<open>
  C1. The walker at offset 0 of the mutation band (slot 10 under the default
  configuration) is mutated at rate 0. The claim has its weights left as they are;
  \<^verbatim>\<open>mutate\<close> replaces all 156 of them, since it replaces a weight when the draw is at least
  the rate. Here every weight is one half before and the fresh value \<open>-1\<close> after.
\<close>

theorem mutate_at_rate_zero_replaces_all:
  "mutation_rate default_config 10 = 0
   \<and> m_sensoryMotorWeights (walker sample_population 10) = replicate 156 (1 / 2)
   \<and> m_sensoryMotorWeights
        (walker (mutate zero_source 10 (mutation_rate default_config 10) sample_population) 10)
       = replicate 156 (- 1)"
proof -
  have r: "mutation_rate default_config 10 = 0"
    by (simp add: mutation_rate_def default_config_def)
  have w: "m_sensoryMotorWeights (walker sample_population 10) = replicate 156 (1 / 2)"
    by (simp add: sample_population_walker sample_walker_def)
  have n: "BODYPART_COUNT * JOINT_COUNT = 156"
    by (simp add: BODYPART_COUNT_def JOINT_COUNT_def NUM_WALKER_LEGS_def)
  have "m_sensoryMotorWeights (walker (mutate zero_source 10 0 sample_population) 10)
          = map (\<lambda>i. rand_weight zero_source (randCalls sample_population + 2 * i + 1))
              [0..<BODYPART_COUNT * JOINT_COUNT]"
    by (rule mutate_replaces_all) (simp_all add: w n)
  also have "\<dots> = map (\<lambda>i. - 1) [0..<156]"
    by (simp add: n rand_weight_def rand_unit_def rand_def zero_source_def)
  also have "\<dots> = replicate (length [0..<156::nat]) (- 1)"
    by (rule map_const) simp
  also have "\<dots> = replicate 156 (- 1)" by simp
  finally show ?thesis using r w by simp
qed

section \<open>The controller\<close>

lemma controller_rest_position:
  assumes "\<not> getTouchSensor w (nat i)"
  shows "summate_inputs w i = 0"
    and "activation (summate_inputs w i) = 1 / 2"
    and "targetLimitAngle hingeC (activation (summate_inputs w i))
           = (m_lowerLimit hingeC + m_upperLimit hingeC) / 2"
  using assms
  by (simp_all add: summate_inputs_untouched activation_def targetLimitAngle_def field_simps)

text \<open>
  C4. The activation of a joint is not the weighted sum over all sensors: the loop
  multiplies every weight by the sensor of the joint's own index. With all weights 1 and
  every body but the root touching, the sum over the sensors for joint 0 is 12, and the
  loop yields 0.
\<close>

theorem activation_reads_one_sensor:
  "summate_inputs touching_walker 0 = 0 \<and> spec_raw touching_walker 0 = 12"
proof -
  have "summate_inputs touching_walker 0 = 0"
    by (simp add: summate_inputs_untouched getTouchSensor_def touching_walker_def)
  moreover have "spec_raw touching_walker 0 = 12"
    by (simp add: spec_raw_def touching_walker_def BODYPART_COUNT_def NUM_WALKER_LEGS_def upt_rec nth_Cons')
  ultimately show ?thesis by simp
qed

section \<open>Touch sensors\<close>

lemma updateEvaluations_walker:
  assumes "length (m_walkersInPopulation s) = POPULATION_SIZE cfg" and "k < POPULATION_SIZE cfg"
  shows "walker (updateEvaluations cfg dt s) k
           = (if m_inEvaluation (walker s k)
              then update_walker cfg (if 1 / 60 < dt then 1 / 60 else dt) (walker s k)
              else walker s k)"
  using assms by (simp add: updateEvaluations_eq walker_def)

text \<open>
  C5, as the code has it. \<^verbatim>\<open>updateEvaluations\<close> runs once per physics step; for a walker
  under evaluation it runs the controller if the leg update is due and then clears all
  touch sensors, due or not. A walker that is not under evaluation is left as it is.
\<close>

theorem sensors_cleared_every_step:
  assumes "length (m_walkersInPopulation s) = POPULATION_SIZE cfg" and "k < POPULATION_SIZE cfg"
  shows "(m_inEvaluation (walker s k) \<longrightarrow>
            walker (updateEvaluations cfg dt s) k
              = update_walker cfg (if 1 / 60 < dt then 1 / 60 else dt) (walker s k)
            \<and> m_touchSensors (walker (updateEvaluations cfg dt s) k) = replicate BODYPART_COUNT False)
         \<and> (\<not> m_inEvaluation (walker s k) \<longrightarrow> walker (updateEvaluations cfg dt s) k = walker s k)"
  by (simp add: updateEvaluations_walker [OF assms] update_walker_frame)

lemma touched_population_facts:
  "length (m_walkersInPopulation touched_population) = POPULATION_SIZE default_config"
  "walker touched_population 0 = setTouchSensor 1 (sample_walker\<lparr>m_inEvaluation := True\<rparr>)"
  by (simp_all add: touched_population_def set_walker_def walker_def sample_population_def
        default_config_def)

theorem sensors_cleared_every_step_witness:
  "length (m_walkersInPopulation touched_population) = POPULATION_SIZE default_config
   \<and> (0::nat) < POPULATION_SIZE default_config
   \<and> m_inEvaluation (walker touched_population 0)
   \<and> m_touchSensors (walker (updateEvaluations default_config (1 / 60) touched_population) 0)
       = replicate BODYPART_COUNT False"
proof -
  have n: "(0::nat) < POPULATION_SIZE default_config" by (simp add: default_config_def)
  have e: "m_inEvaluation (walker touched_population 0)"
    by (simp add: touched_population_facts setTouchSensor_def)
  have "m_touchSensors (walker (updateEvaluations default_config (1 / 60) touched_population) 0)
          = replicate BODYPART_COUNT False"
    using sensors_cleared_every_step [OF touched_population_facts(1) n, of "1 / 60"] e by blast
  then show ?thesis
    using e n touched_population_facts(1) by blast
qed

text \<open>
  C5, as the claim has it, fails: a walker under evaluation has the sensor of body 1 set;
  one step of a sixtieth of a second follows, in which no leg update is due (the
  accumulator is not reset, it stands at a sixtieth), and the sensor is clear afterwards.
\<close>

theorem sensor_lost_between_ticks:
  "getTouchSensor (walker touched_population 0) 1
   \<and> m_inEvaluation (walker touched_population 0)
   \<and> m_legUpdateAccumulator (walker (updateEvaluations default_config (1 / 60) touched_population) 0) = 1 / 60
   \<and> \<not> getTouchSensor (walker (updateEvaluations default_config (1 / 60) touched_population) 0) 1"
proof -
  have n: "(0::nat) < POPULATION_SIZE default_config" by (simp add: default_config_def)
  have w: "walker (updateEvaluations default_config (1 / 60) touched_population) 0
             = update_walker default_config (1 / 60) (setTouchSensor 1 (sample_walker\<lparr>m_inEvaluation := True\<rparr>))"
    by (simp add: updateEvaluations_walker [OF touched_population_facts(1) n]
          touched_population_facts(2) setTouchSensor_def)
  have a: "m_legUpdateAccumulator (update_walker default_config (1 / 60)
             (setTouchSensor 1 (sample_walker\<lparr>m_inEvaluation := True\<rparr>))) = 1 / 60"
    by (simp add: update_walker_def Let_def leg_update_due_def default_config_def
          clearTouchSensors_def setTouchSensor_def sample_walker_def)
  have c: "\<not> getTouchSensor (update_walker default_config (1 / 60)
             (setTouchSensor 1 (sample_walker\<lparr>m_inEvaluation := True\<rparr>))) 1"
    by (simp add: getTouchSensor_def update_walker_frame BODYPART_COUNT_def NUM_WALKER_LEGS_def)
  have s: "getTouchSensor (walker touched_population 0) 1"
    by (simp add: touched_population_facts getTouchSensor_def setTouchSensor_def sample_walker_def)
  have e: "m_inEvaluation (walker touched_population 0)"
    by (simp add: touched_population_facts setTouchSensor_def)
  show ?thesis using s e a c by (simp add: w)
qed

section \<open>Ranking\<close>

lemma getFitness_reset [simp]: "getFitness (w\<lparr>m_evaluationTime := t\<rparr>) = getFitness w"
  by (simp add: getFitness_def getDistanceFitness_def getPosition_def)

lemma ranks_before_reset [simp]:
  "ranks_before (a\<lparr>m_evaluationTime := t\<rparr>) (b\<lparr>m_evaluationTime := u\<rparr>) = ranks_before a b"
  by (simp add: ranks_before_def)

lemma reset_filter:
  "filter (\<lambda>w. getFitness w = f) (map (\<lambda>w. w\<lparr>m_evaluationTime := 0\<rparr>) ws)
     = map (\<lambda>w. w\<lparr>m_evaluationTime := 0\<rparr>) (filter (\<lambda>w. getFitness w = f) ws)"
  by (simp add: filter_map comp_def)

lemma reset_sorted:
  "sorted_wrt (\<lambda>a b. getFitness b \<le> getFitness a) (map (\<lambda>w. w\<lparr>m_evaluationTime := 0\<rparr>) ws)
     = sorted_wrt (\<lambda>a b. getFitness b \<le> getFitness a) ws"
  "sorted_wrt ranks_before (map (\<lambda>w. w\<lparr>m_evaluationTime := 0\<rparr>) ws) = sorted_wrt ranks_before ws"
  by (simp_all add: sorted_wrt_map)

text \<open>
  C3. On a population that is not empty \<^verbatim>\<open>rateEvaluations\<close> returns, with the same walkers
  (their evaluation times reset) sorted by descending fitness, and walkers of equal
  fitness keep the order of their slots: the walkers of any one fitness appear in the
  ranking in the order they had before, so that, when each walker carries the index of
  its slot, the ranking is strictly ordered by fitness first and slot index second.
  The sort itself is the stable sort the specification asks for.
\<close>

theorem ranking_breaks_ties_by_slot:
  assumes "length (m_walkersInPopulation s) = POPULATION_SIZE cfg" and "0 < POPULATION_SIZE cfg"
  shows "\<exists>s'. rateEvaluations cfg s = Inr s'
           \<and> sorted_wrt (\<lambda>a b. getFitness b \<le> getFitness a) (m_walkersInPopulation s')
           \<and> mset (m_walkersInPopulation s')
               = image_mset (\<lambda>w. w\<lparr>m_evaluationTime := 0\<rparr>) (mset (m_walkersInPopulation s))
           \<and> (\<forall>f. filter (\<lambda>w. getFitness w = f) (m_walkersInPopulation s')
                    = map (\<lambda>w. w\<lparr>m_evaluationTime := 0\<rparr>)
                        (filter (\<lambda>w. getFitness w = f) (m_walkersInPopulation s)))
           \<and> (sorted_wrt (<) (map m_index (m_walkersInPopulation s))
                \<longrightarrow> sorted_wrt ranks_before (m_walkersInPopulation s'))"
proof -
  obtain s' where r: "rateEvaluations cfg s = Inr s'"
    using rateEvaluations_succeeds [of s cfg] assms by auto
  note w = rateEvaluations_Inr(1) [OF r assms(1)]
  have "mset (m_walkersInPopulation s')
          = image_mset (\<lambda>w. w\<lparr>m_evaluationTime := 0\<rparr>) (mset (m_walkersInPopulation s))"
    unfolding w by simp
  moreover have "sorted_wrt (\<lambda>a b. getFitness b \<le> getFitness a) (m_walkersInPopulation s')"
    unfolding w reset_sorted by (rule quickSort_descending)
  moreover have "\<forall>f. filter (\<lambda>w. getFitness w = f) (m_walkersInPopulation s')
                    = map (\<lambda>w. w\<lparr>m_evaluationTime := 0\<rparr>)
                        (filter (\<lambda>w. getFitness w = f) (m_walkersInPopulation s))"
    unfolding w reset_filter by (simp add: quickSort_stable)
  moreover have "sorted_wrt ranks_before (m_walkersInPopulation s')"
    if "sorted_wrt (<) (map m_index (m_walkersInPopulation s))"
    unfolding w reset_sorted using that by (rule quickSort_ties)
  ultimately show ?thesis using r by (intro exI [of _ s']) simp
qed

lemma fold_vadd_replicate:
  "fold (\<lambda>p acc. vadd acc p) (replicate n (d, 0, 0)) (a, b, c) = (a + real n * d, b, c)"
  by (induction n arbitrary: a) (simp_all add: algebra_simps)

lemma getFitness_moved_walker: "getFitness (moved_walker i d) = d * d"
proof -
  have "fold (\<lambda>p acc. vadd acc p) (replicate 13 (d, 0, 0)) (0, 0, 0) = (0 + real 13 * d, 0, 0)"
    by (rule fold_vadd_replicate)
  then show ?thesis
    by (simp add: getFitness_def getDistanceFitness_def getPosition_def moved_walker_def
          sample_walker_def BODYPART_COUNT_def NUM_WALKER_LEGS_def)
qed

lemma three_walkers_ranked:
  "quickSort fitnessComparator (m_walkersInPopulation three_walkers)
     = [moved_walker 1 1, moved_walker 2 1, moved_walker 0 0]"
  by (simp add: three_walkers_def NN3DWalkersExample_new_def quickSort_def fitnessComparator_def
        getFitness_moved_walker)

theorem ranking_breaks_ties_by_slot_witness:
  "length (m_walkersInPopulation three_walkers) = POPULATION_SIZE three_slots
   \<and> 0 < POPULATION_SIZE three_slots
   \<and> map m_index (m_walkersInPopulation three_walkers) = [0, 1, 2]
   \<and> map getFitness (m_walkersInPopulation three_walkers) = [0, 1, 1]
   \<and> (\<exists>s'. rateEvaluations three_slots three_walkers = Inr s'
            \<and> map m_index (m_walkersInPopulation s') = [1, 2, 0]
            \<and> sorted_wrt ranks_before (m_walkersInPopulation s'))"
proof -
  have len: "length (m_walkersInPopulation three_walkers) = POPULATION_SIZE three_slots"
    and pos: "0 < POPULATION_SIZE three_slots"
    by (simp_all add: three_walkers_def three_slots_def default_config_def NN3DWalkersExample_new_def)
  have idx: "map m_index (m_walkersInPopulation three_walkers) = [0, 1, 2]"
    by (simp add: three_walkers_def NN3DWalkersExample_new_def moved_walker_def sample_walker_def)
  have fit: "map getFitness (m_walkersInPopulation three_walkers) = [0, 1, 1]"
    by (simp add: three_walkers_def NN3DWalkersExample_new_def getFitness_moved_walker)
  obtain s' where r: "rateEvaluations three_slots three_walkers = Inr s'"
    and t: "sorted_wrt (<) (map m_index (m_walkersInPopulation three_walkers))
              \<longrightarrow> sorted_wrt ranks_before (m_walkersInPopulation s')"
    using ranking_breaks_ties_by_slot [OF len pos] by blast
  have "m_walkersInPopulation s'
          = map (\<lambda>w. w\<lparr>m_evaluationTime := 0\<rparr>) [moved_walker 1 1, moved_walker 2 1, moved_walker 0 0]"
    using rateEvaluations_Inr(1) [OF r len] by (simp add: three_walkers_ranked)
  then have "map m_index (m_walkersInPopulation s') = [1, 2, 0]"
    by (simp add: moved_walker_def)
  moreover have "sorted_wrt ranks_before (m_walkersInPopulation s')"
    using t idx by simp
  ultimately have "\<exists>s'. rateEvaluations three_slots three_walkers = Inr s'
            \<and> map m_index (m_walkersInPopulation s') = [1, 2, 0]
            \<and> sorted_wrt ranks_before (m_walkersInPopulation s')"
    using r by (intro exI [of _ s']) simp
  then show ?thesis using len pos idx fit by (intro conjI)
qed

section \<open>A generation under the default quotas\<close>

lemma reaped_walkers:
  assumes "length ws = 50"
  shows "k < 35 \<Longrightarrow> (take 35 ws @ map mark_reaped (drop 35 ws)) ! k = ws ! k"
    and "35 \<le> k \<Longrightarrow> k < 50 \<Longrightarrow> (take 35 ws @ map mark_reaped (drop 35 ws)) ! k = mark_reaped (ws ! k)"
  using assms by (simp_all add: nth_append)

lemma generation_default:
  assumes q: "default_quotas cfg" and len: "length (m_walkersInPopulation s) = 50"
  shows "\<exists>ranked reaped sown.
           rateEvaluations cfg s = Inr ranked \<and> reap cfg ranked = Inr reaped
           \<and> sow cfg rnd reaped = Inr sown
           \<and> length (m_walkersInPopulation ranked) = 50
           \<and> console reaped = console ranked @ [WalkersReaped 15]
           \<and> console sown = console reaped @ [WalkersSown 15]
           \<and> m_nextReapedIndex sown = 15
           \<and> (\<forall>k<35. walker reaped k = walker ranked k)
           \<and> (\<forall>k<10. walker sown k = walker reaped k)"
proof -
  have N: "length (m_walkersInPopulation s) = POPULATION_SIZE cfg"
    using q len by (simp add: default_quotas_def)
  obtain ranked where rate: "rateEvaluations cfg s = Inr ranked"
    using rateEvaluations_succeeds [of s cfg] len by auto
  have rlen: "length (m_walkersInPopulation ranked) = 50"
    using rateEvaluations_Inr(1) [OF rate N] len by simp
  have ridx: "m_nextReapedIndex ranked = 0" by (rule rateEvaluations_Inr(4) [OF rate N])
  let ?reaped = "b3Printf (WalkersReaped 15)
           (ranked\<lparr>m_walkersInPopulation :=
                take 35 (m_walkersInPopulation ranked)
                @ map mark_reaped (drop 35 (m_walkersInPopulation ranked))\<rparr>)"
  have reap: "reap cfg ranked = Inr ?reaped" by (rule reap_default [OF q rlen])
  have plen: "length (m_walkersInPopulation ?reaped) = 50"
    using rlen by (simp add: b3Printf_def)
  have pidx: "m_nextReapedIndex ?reaped = 0" using ridx by (simp add: b3Printf_def)
  have low: "\<forall>k<35. walker ?reaped k = walker ranked k"
    using reaped_walkers(1) [OF rlen] by (simp add: b3Printf_def walker_def)
  have flags: "\<forall>k. 35 \<le> k \<and> k < 50 \<longrightarrow> m_reaped (walker ?reaped k)"
    using reaped_walkers(2) [OF rlen] by (simp add: b3Printf_def walker_def mark_reaped_def)
  obtain sown where sow: "sow cfg rnd ?reaped = Inr sown"
    and "\<forall>k<10. walker sown k = walker ?reaped k" and "m_nextReapedIndex sown = 15"
    and "console sown = console ?reaped @ [WalkersSown 15]"
    using sow_default [OF q plen pidx flags, of rnd] by blast
  moreover have "console ?reaped = console ranked @ [WalkersReaped 15]"
    by (simp add: b3Printf_def)
  ultimately show ?thesis
    using rate reap rlen low
    by (intro exI [of _ ranked] exI [of _ ?reaped] exI [of _ sown] conjI) simp_all
qed

text \<open>
  C7. Under the default parameters \<^verbatim>\<open>reap\<close> counts 15 walkers, the ceiling of
  \<open>(POPULATION_SIZE - 1) * REAP_QTY\<close>; they are the slots 35 to 49, and when no walker was
  marked before, 15 walkers are marked afterwards. The crossover loop of \<^verbatim>\<open>sow\<close> that
  follows runs 10 times, which is not more.
\<close>

theorem reaped_count_default:
  assumes "length (m_walkersInPopulation s) = 50" and "m_nextReapedIndex s = 0"
  shows "\<exists>reaped crossed.
           reap default_config s = Inr reaped
           \<and> console reaped = console s @ [WalkersReaped 15]
           \<and> (15 :: int) = \<lceil>real_of_int (int (POPULATION_SIZE default_config) - 1) * REAP_QTY default_config\<rceil>
           \<and> (\<forall>k<50. m_reaped (walker reaped k) \<longleftrightarrow> 35 \<le> k \<or> m_reaped (walker s k))
           \<and> (list_all (\<lambda>w. \<not> m_reaped w) (m_walkersInPopulation s)
                \<longrightarrow> length (filter m_reaped (m_walkersInPopulation reaped)) = 15)
           \<and> sow_crossover default_config rnd (0, reaped) = Inr (10, crossed)
           \<and> (10 :: int) \<le> 15"
proof -
  let ?ws = "m_walkersInPopulation s"
  let ?reaped = "b3Printf (WalkersReaped 15)
           (s\<lparr>m_walkersInPopulation := take 35 ?ws @ map mark_reaped (drop 35 ?ws)\<rparr>)"
  have reap: "reap default_config s = Inr ?reaped"
    by (rule reap_default [OF default_quotas_default assms(1)])
  have plen: "length (m_walkersInPopulation ?reaped) = 50"
    using assms(1) by (simp add: b3Printf_def)
  have pidx: "m_nextReapedIndex ?reaped = 0" using assms(2) by (simp add: b3Printf_def)
  have marks: "\<forall>k<50. m_reaped (walker ?reaped k) \<longleftrightarrow> 35 \<le> k \<or> m_reaped (walker s k)"
  proof (intro allI impI)
    fix k :: nat assume "k < 50"
    then show "m_reaped (walker ?reaped k) \<longleftrightarrow> 35 \<le> k \<or> m_reaped (walker s k)"
      using reaped_walkers [OF assms(1), of k]
      by (cases "k < 35") (simp_all add: b3Printf_def walker_def mark_reaped_def)
  qed
  then have flags: "\<forall>k. 35 \<le> k \<and> k < 50 \<longrightarrow> m_reaped (walker ?reaped k)" by simp
  obtain crossed where cross: "sow_crossover default_config rnd (0, ?reaped) = Inr (10, crossed)"
    using sow_crossover_default [OF default_quotas_default plen pidx flags, of rnd] by blast
  have count: "length (filter m_reaped (m_walkersInPopulation ?reaped)) = 15"
    if "list_all (\<lambda>w. \<not> m_reaped w) ?ws"
  proof -
    have "\<forall>w\<in>set (take 35 ?ws). \<not> m_reaped w"
      using that by (auto simp: list_all_iff dest: in_set_takeD)
    then have "filter m_reaped (take 35 ?ws) = []" by (simp add: filter_empty_conv)
    moreover have "filter m_reaped (map mark_reaped (drop 35 ?ws)) = map mark_reaped (drop 35 ?ws)"
      by (simp add: filter_id_conv mark_reaped_def)
    ultimately show ?thesis using assms(1) by (simp add: b3Printf_def)
  qed
  have "(15 :: int) = \<lceil>real_of_int (int (POPULATION_SIZE default_config) - 1) * REAP_QTY default_config\<rceil>"
    by (simp add: default_config_def)
  moreover have "console ?reaped = console s @ [WalkersReaped 15]"
    by (simp add: b3Printf_def)
  ultimately show ?thesis
    using reap marks count cross
    by (intro exI [of _ ?reaped] exI [of _ crossed] conjI impI) simp_all
qed

theorem reaped_count_default_witness:
  "length (m_walkersInPopulation sample_population) = 50
   \<and> m_nextReapedIndex sample_population = 0
   \<and> list_all (\<lambda>w. \<not> m_reaped w) (m_walkersInPopulation sample_population)
   \<and> (\<exists>reaped crossed.
         reap default_config sample_population = Inr reaped
         \<and> length (filter m_reaped (m_walkersInPopulation reaped)) = 15
         \<and> sow_crossover default_config zero_source (0, reaped) = Inr (10, crossed))"
proof -
  have i: "m_nextReapedIndex sample_population = 0"
    by (simp add: sample_population_def NN3DWalkersExample_new_def)
  have u: "list_all (\<lambda>w. \<not> m_reaped w) (m_walkersInPopulation sample_population)"
    by (simp add: sample_population_def list_all_iff sample_walker_def)
  obtain reaped crossed where "reap default_config sample_population = Inr reaped"
    and "list_all (\<lambda>w. \<not> m_reaped w) (m_walkersInPopulation sample_population)
           \<longrightarrow> length (filter m_reaped (m_walkersInPopulation reaped)) = 15"
    and "sow_crossover default_config zero_source (0, reaped) = Inr (10, crossed)"
    using reaped_count_default [OF sample_population_length i, of zero_source] by blast
  then have "\<exists>reaped crossed.
         reap default_config sample_population = Inr reaped
         \<and> length (filter m_reaped (m_walkersInPopulation reaped)) = 15
         \<and> sow_crossover default_config zero_source (0, reaped) = Inr (10, crossed)"
    using u by (intro exI [of _ reaped] exI [of _ crossed]) simp
  then show ?thesis using i u sample_population_length by (intro conjI)
qed

text \<open>
  C8, as the code has it. Under the default parameters the elite, the walkers ranked in
  the slots below \<open>POPULATION_SIZE * SOW_ELITE_QTY\<close>, are the same walkers after \<^verbatim>\<open>reap\<close>
  and after \<^verbatim>\<open>sow\<close> as after the ranking: neither marked, nor mutated, nor overwritten; in
  particular their weights are the same.
\<close>

theorem elite_untouched_by_sow:
  assumes "length (m_walkersInPopulation s) = 50"
    and "rateEvaluations default_config s = Inr ranked"
    and "reap default_config ranked = Inr reaped"
    and "sow default_config rnd reaped = Inr sown"
  shows "\<forall>k. real k < real (POPULATION_SIZE default_config) * SOW_ELITE_QTY default_config \<longrightarrow>
           walker reaped k = walker ranked k \<and> walker sown k = walker ranked k
           \<and> m_sensoryMotorWeights (walker sown k) = m_sensoryMotorWeights (walker ranked k)"
proof (intro allI impI)
  fix k :: nat
  assume "real k < real (POPULATION_SIZE default_config) * SOW_ELITE_QTY default_config"
  then have k: "k < 10" by (simp add: default_config_def)
  obtain ranked' reaped' sown' where
    "rateEvaluations default_config s = Inr ranked'" "reap default_config ranked' = Inr reaped'"
    "sow default_config rnd reaped' = Inr sown'"
    and low: "\<forall>k<35. walker reaped' k = walker ranked' k"
    and elite: "\<forall>k<10. walker sown' k = walker reaped' k"
    using generation_default [OF default_quotas_default assms(1), of rnd] by blast
  then have "ranked' = ranked" "reaped' = reaped" "sown' = sown"
    using assms(2-4) by simp_all
  then show "walker reaped k = walker ranked k \<and> walker sown k = walker ranked k
           \<and> m_sensoryMotorWeights (walker sown k) = m_sensoryMotorWeights (walker ranked k)"
    using low elite k by simp
qed

theorem elite_untouched_by_sow_witness:
  "length (m_walkersInPopulation sample_population) = 50
   \<and> (\<exists>ranked reaped sown.
         rateEvaluations default_config sample_population = Inr ranked
         \<and> reap default_config ranked = Inr reaped
         \<and> sow default_config zero_source reaped = Inr sown
         \<and> real (0::nat) < real (POPULATION_SIZE default_config) * SOW_ELITE_QTY default_config
         \<and> m_sensoryMotorWeights (walker sown 0) = m_sensoryMotorWeights (walker ranked 0))"
proof -
  obtain ranked reaped sown where g:
    "rateEvaluations default_config sample_population = Inr ranked"
    "reap default_config ranked = Inr reaped"
    "sow default_config zero_source reaped = Inr sown"
    using generation_default [OF default_quotas_default sample_population_length, of zero_source]
    by blast
  have e: "real (0::nat) < real (POPULATION_SIZE default_config) * SOW_ELITE_QTY default_config"
    by (simp add: default_config_def)
  have "m_sensoryMotorWeights (walker sown 0) = m_sensoryMotorWeights (walker ranked 0)"
    using elite_untouched_by_sow [OF sample_population_length g] e by blast
  then have "\<exists>ranked reaped sown.
         rateEvaluations default_config sample_population = Inr ranked
         \<and> reap default_config ranked = Inr reaped
         \<and> sow default_config zero_source reaped = Inr sown
         \<and> real (0::nat) < real (POPULATION_SIZE default_config) * SOW_ELITE_QTY default_config
         \<and> m_sensoryMotorWeights (walker sown 0) = m_sensoryMotorWeights (walker ranked 0)"
    using g e by (intro exI [of _ ranked] exI [of _ reaped] exI [of _ sown] conjI)
  then show ?thesis using sample_population_length by (intro conjI)
qed

text \<open>
  C10. Under the default parameters, on a population of fifty walkers, ranking, reaping
  and sowing all succeed: \<^verbatim>\<open>reap\<close> marks 15 walkers, \<^verbatim>\<open>sow\<close> asks \<^verbatim>\<open>getNextReaped\<close> 15
  times (its counter \<open>sow\<close>, printed at the end), and no call yields \<^verbatim>\<open>NULL\<close>, which would
  end \<^verbatim>\<open>sow\<close> with the error of a null pointer.
\<close>

theorem sow_never_asks_for_too_many:
  assumes "length (m_walkersInPopulation s) = 50"
  shows "\<exists>ranked reaped sown.
           rateEvaluations default_config s = Inr ranked
           \<and> reap default_config ranked = Inr reaped
           \<and> sow default_config rnd reaped = Inr sown
           \<and> console reaped = console ranked @ [WalkersReaped 15]
           \<and> console sown = console reaped @ [WalkersSown 15]
           \<and> m_nextReapedIndex sown = 15"
proof -
  obtain ranked reaped sown where "rateEvaluations default_config s = Inr ranked"
    "reap default_config ranked = Inr reaped" "sow default_config rnd reaped = Inr sown"
    "console reaped = console ranked @ [WalkersReaped 15]"
    "console sown = console reaped @ [WalkersSown 15]" "m_nextReapedIndex sown = 15"
    using generation_default [OF default_quotas_default assms, of rnd] by blast
  then show ?thesis
    by (intro exI [of _ ranked] exI [of _ reaped] exI [of _ sown] conjI)
qed

theorem sow_never_asks_for_too_many_witness:
  "length (m_walkersInPopulation sample_population) = 50
   \<and> (\<exists>ranked reaped sown.
         rateEvaluations default_config sample_population = Inr ranked
         \<and> reap default_config ranked = Inr reaped
         \<and> sow default_config zero_source reaped = Inr sown
         \<and> console sown = console reaped @ [WalkersSown 15])"
proof -
  obtain ranked reaped sown where "rateEvaluations default_config sample_population = Inr ranked"
    "reap default_config ranked = Inr reaped" "sow default_config zero_source reaped = Inr sown"
    "console sown = console reaped @ [WalkersSown 15]"
    using sow_never_asks_for_too_many [OF sample_population_length, of zero_source] by blast
  then have "\<exists>ranked reaped sown.
         rateEvaluations default_config sample_population = Inr ranked
         \<and> reap default_config ranked = Inr reaped
         \<and> sow default_config zero_source reaped = Inr sown
         \<and> console sown = console reaped @ [WalkersSown 15]"
    by (intro exI [of _ ranked] exI [of _ reaped] exI [of _ sown] conjI)
  then show ?thesis using sample_population_length by (intro conjI)
qed

section \<open>Sowing in a population of four\<close>

lemma for_upE_step:
  assumes "real_of_int i < b"
  shows "for_upE i b body s = bindE (body i s) (for_upE (i + 1) b body)"
  using assms by (subst for_upE.simps) (cases "body i s"; simp)

lemma for_upE_done:
  assumes "\<not> real_of_int i < b"
  shows "for_upE i b body s = Inr s"
  using assms by (subst for_upE.simps) simp

lemma for_downE_step:
  assumes "b \<le> real_of_int i"
  shows "for_downE i b body s = bindE (body i s) (for_downE (i - 1) b body)"
  using assms by (subst for_downE.simps) (cases "body i s"; simp)

lemma for_downE_done:
  assumes "\<not> b \<le> real_of_int i"
  shows "for_downE i b body s = Inr s"
  using assms by (subst for_downE.simps) simp

lemma four_slots_fields:
  "POPULATION_SIZE four_slots = 4" "REAP_QTY four_slots = 3 / 10"
  "SOW_CROSSOVER_QTY four_slots = 2 / 10" "SOW_ELITE_QTY four_slots = 2 / 10"
  "SOW_MUTATION_QTY four_slots = 5 / 10" "MUTATION_RATE four_slots = 5 / 10"
  "SOW_ELITE_PARTNER four_slots = 8 / 10" "gParallelEvaluations four_slots = 10"
  by (simp_all add: four_slots_def default_config_def)

lemma four_reaped_facts:
  "length (m_walkersInPopulation four_reaped) = 4"
  "m_nextReapedIndex four_reaped = 0"
  "walker four_reaped 0 = sample_walker"
  "m_reaped (walker four_reaped 3)"
  by (simp_all add: four_reaped_def four_ranked_def b3Printf_def set_walker_def walker_def
        NN3DWalkersExample_new_def)

lemma reap_four: "reap four_slots four_ranked = Inr four_reaped"
proof -
  have len: "length (m_walkersInPopulation four_ranked) = 4"
    and w3: "walker four_ranked 3 = sample_walker\<lparr>m_index := 3\<rparr>"
    by (simp_all add: four_ranked_def NN3DWalkersExample_new_def walker_def)
  show ?thesis
    unfolding reap_def four_slots_fields
    by (simp add: for_downE_step for_downE_done slot_at_def len w3 four_reaped_def)
qed


lemma reaped_set_weight [simp]:
  "map m_reaped (m_walkersInPopulation (set_weight c i v s)) = map m_reaped (m_walkersInPopulation s)"
proof (cases "c < length (m_walkersInPopulation s)")
  case True
  then have "(map m_reaped (m_walkersInPopulation s))[c := m_reaped (m_walkersInPopulation s ! c)]
               = map m_reaped (m_walkersInPopulation s)"
    by (intro list_update_known) simp
  then show ?thesis by (simp add: set_weight_def set_walker_def walker_def map_update)
next
  case False
  then show ?thesis by (simp add: set_weight_def set_walker_def list_update_beyond not_less)
qed

lemma crossover_reaped:
  assumes "crossover rnd mother father child s = Inr s'"
  shows "map m_reaped (m_walkersInPopulation s') = map m_reaped (m_walkersInPopulation s)"
proof (rule for_upE_preserves [OF assms [unfolded crossover_def],
        where P = "\<lambda>t. map m_reaped (m_walkersInPopulation t) = map m_reaped (m_walkersInPopulation s)"])
  show "map m_reaped (m_walkersInPopulation s) = map m_reaped (m_walkersInPopulation s)" by simp
next
  fix k t t'
  assume "map m_reaped (m_walkersInPopulation t) = map m_reaped (m_walkersInPopulation s)"
    and "(let random = rand_unit rnd (randCalls t); s1 = t\<lparr>randCalls := randCalls t + 1\<rparr>
          in case child of None \<Rightarrow> Inl NullPointer
             | Some c \<Rightarrow>
                 if 5 / 10 \<le> random
                 then Inr (set_weight c (nat k) (m_sensoryMotorWeights (walker s1 mother) ! nat k) s1)
                 else Inr (set_weight c (nat k) (m_sensoryMotorWeights (walker s1 father) ! nat k) s1))
         = Inr t'"
  then show "map m_reaped (m_walkersInPopulation t') = map m_reaped (m_walkersInPopulation s)"
    by (cases child) (auto simp: Let_def split: if_splits)
qed

lemma walker_nextReaped [simp]: "walker (s\<lparr>m_nextReapedIndex := n\<rparr>) k = walker s k"
  by (simp add: walker_def)

lemma zero_quot [simp]: "rand_quot zero_source n = 0"
  by (simp add: rand_quot_def rand_def zero_source_def RAND_MAX_def)

lemma sow_crossover_four:
  assumes len: "length (m_walkersInPopulation s) = 4" and idx: "m_nextReapedIndex s = 0"
    and flag: "m_reaped (walker s 3)"
  shows "\<exists>t. sow_crossover four_slots zero_source (0, s) = Inr (1, t)
            \<and> agree (\<lambda>k. k \<noteq> 3) s t \<and> m_nextReapedIndex t = 1 \<and> m_reaped (walker t 3)"
proof -
  let ?s3 = "s\<lparr>randCalls := Suc (Suc (Suc (randCalls s)))\<rparr>"
  let ?s4 = "?s3\<lparr>m_nextReapedIndex := 1\<rparr>"
  obtain t where t: "crossover zero_source 0 0 (Some 3) ?s4 = Inr t"
    and a: "agree (\<lambda>k. k \<noteq> 3) ?s4 t" and i: "m_nextReapedIndex t = m_nextReapedIndex ?s4"
    using crossover_Some [of zero_source 0 0 3 ?s4] by blast
  have "map m_reaped (m_walkersInPopulation t) = map m_reaped (m_walkersInPopulation s)"
    using crossover_reaped [OF t] by simp
  then have "map m_reaped (m_walkersInPopulation t) ! 3 = map m_reaped (m_walkersInPopulation s) ! 3"
    by simp
  moreover have "length (m_walkersInPopulation t) = 4" using agree_length [OF a] len by simp
  ultimately have f: "m_reaped (walker t 3)" using flag len by (simp add: walker_def)
  have a': "agree (\<lambda>k. k \<noteq> 3) s t" using a by (simp add: agree_def walker_def)
  have e: "getRandomElite four_slots zero_source u = Inr (0, u\<lparr>randCalls := randCalls u + 1\<rparr>)"
    if "length (m_walkersInPopulation u) = 4" for u
    using that by (simp add: getRandomElite_def four_slots_fields slot_at_def trunc_def)
  have n: "getRandomNonElite four_slots zero_source u = Inr (0, u\<lparr>randCalls := randCalls u + 1\<rparr>)"
    if "length (m_walkersInPopulation u) = 4" for u
    using that by (simp add: getRandomNonElite_def four_slots_fields slot_at_def trunc_def)
  have g: "getNextReaped four_slots ?s3 = Inr (Some 3, ?s4)"
    using len idx flag by (simp add: getNextReaped_def four_slots_fields slot_at_def)
  have "sow_crossover four_slots zero_source (0, s) = Inr (1, t)"
    unfolding sow_crossover_def four_slots_fields
    by (simp add: for_upE_step for_upE_done e n len g [unfolded four_slots_fields] t four_slots_fields)
  then show ?thesis using a' i f by simp
qed

lemma sow_mutants_four:
  assumes len: "length (m_walkersInPopulation s) = 4"
  shows "sow_mutants four_slots rnd s
           = Inr (mutate rnd 2 (mutation_rate four_slots 2)
                   (mutate rnd 1 (mutation_rate four_slots 1)
                     (mutate rnd 0 (mutation_rate four_slots 0) s)))"
proof -
  have l: "length (m_walkersInPopulation (mutate rnd k r u)) = length (m_walkersInPopulation u)" for k r u
    using agree_length [OF mutate_frame(1) [of k u rnd r]] by simp
  show ?thesis
    unfolding sow_mutants_def four_slots_fields
    by (simp add: trunc_def for_upE_step for_upE_done slot_at_def len l del: length_greater_0_conv)
qed

lemma sow_random_four:
  assumes len: "length (m_walkersInPopulation s) = 4" and idx: "m_nextReapedIndex s = 1"
    and flag: "m_reaped (walker s 3)"
  shows "\<exists>t. sow_random four_slots rnd (n, s) = Inr (n + 1, t) \<and> agree (\<lambda>k. k \<noteq> 3) s t"
proof -
  have g: "getNextReaped four_slots s = Inr (Some 3, s)"
    using len idx flag by (simp add: getNextReaped_def four_slots_fields slot_at_def)
  let ?s2 = "set_walker 3 ((walker s 3)\<lparr>m_reaped := False\<rparr>) s"
  obtain ws m where r: "randomizeSensoryMotorWeights rnd (m_sensoryMotorWeights (walker ?s2 3), randCalls ?s2)
                          = (ws, m)"
    by (cases "randomizeSensoryMotorWeights rnd (m_sensoryMotorWeights (walker ?s2 3), randCalls ?s2)")
  let ?t = "set_walker 3 ((walker ?s2 3)\<lparr>m_sensoryMotorWeights := ws\<rparr>) (?s2\<lparr>randCalls := m\<rparr>)"
  have "sow_random four_slots rnd (n, s) = Inr (n + 1, ?t)"
    unfolding sow_random_def four_slots_fields
    by (simp add: for_upE_step for_upE_done g [unfolded four_slots_fields] r Let_def)
  moreover have "agree (\<lambda>k. k \<noteq> 3) s ?t"
    by (simp add: agree_def set_walker_def walker_def)
  ultimately show ?thesis by blast
qed

lemma zero_weights:
  "map (\<lambda>i. rand_weight zero_source (n + 2 * i + 1)) [0..<BODYPART_COUNT * JOINT_COUNT]
     = replicate 156 (- 1)"
proof -
  have "map (\<lambda>i. rand_weight zero_source (n + 2 * i + 1)) [0..<156] = map (\<lambda>i. - 1) [0..<156]"
    by (simp add: rand_weight_def rand_unit_def rand_def zero_source_def)
  also have "\<dots> = replicate (length [0..<156::nat]) (- 1)"
    by (rule map_const) simp
  finally show ?thesis
    by (simp add: BODYPART_COUNT_def JOINT_COUNT_def NUM_WALKER_LEGS_def)
qed

text \<open>
  C8, as the claim has it, fails. In a population of four walkers, which is not malformed,
  \<open>POPULATION_SIZE * SOW_ELITE_QTY\<close> is 0.8, so the walker ranked in slot 0 is of the elite.
  The mutation loop of \<^verbatim>\<open>sow\<close> starts at the slot this product is truncated to, slot 0, at
  the rate \<open>-0.2\<close>, and every weight of the walker is replaced: one half before \<^verbatim>\<open>sow\<close>,
  \<open>-1\<close> after it.
\<close>

theorem elite_mutated_in_small_population:
  "\<not> malformed four_slots
   \<and> reap four_slots four_ranked = Inr four_reaped
   \<and> real (0::nat) < real (POPULATION_SIZE four_slots) * SOW_ELITE_QTY four_slots
   \<and> trunc (real (POPULATION_SIZE four_slots) * SOW_ELITE_QTY four_slots) = 0
   \<and> mutation_rate four_slots 0 = - (2 / 10)
   \<and> m_sensoryMotorWeights (walker four_reaped 0) = replicate 156 (1 / 2)
   \<and> weights_after_sow four_slots zero_source four_reaped 0 = Inr (replicate 156 (- 1))"
proof -
  have m: "\<not> malformed four_slots" by (simp add: malformed_def four_slots_fields)
  have e: "real (0::nat) < real (POPULATION_SIZE four_slots) * SOW_ELITE_QTY four_slots"
    and tr: "trunc (real (POPULATION_SIZE four_slots) * SOW_ELITE_QTY four_slots) = 0"
    and rate: "mutation_rate four_slots 0 = - (2 / 10)"
    by (simp_all add: four_slots_fields trunc_def mutation_rate_def)
  have w: "m_sensoryMotorWeights (walker four_reaped 0) = replicate 156 (1 / 2)"
    by (simp add: four_reaped_facts sample_walker_def)
  obtain t1 where c: "sow_crossover four_slots zero_source (0, four_reaped) = Inr (1, t1)"
    and a1: "agree (\<lambda>k. k \<noteq> 3) four_reaped t1" and i1: "m_nextReapedIndex t1 = 1"
    and f1: "m_reaped (walker t1 3)"
    using sow_crossover_four [OF four_reaped_facts(1,2,4)] by blast
  have len1: "length (m_walkersInPopulation t1) = 4"
    using agree_length [OF a1] four_reaped_facts(1) by simp
  have w1: "walker t1 0 = sample_walker"
    using agree_walker [OF a1, of 0] four_reaped_facts(3) by simp
  let ?u0 = "mutate zero_source 0 (mutation_rate four_slots 0) t1"
  let ?u1 = "mutate zero_source 1 (mutation_rate four_slots 1) ?u0"
  let ?u2 = "mutate zero_source 2 (mutation_rate four_slots 2) ?u1"
  have mu: "sow_mutants four_slots zero_source t1 = Inr ?u2" by (rule sow_mutants_four [OF len1])
  have "m_sensoryMotorWeights (walker ?u0 0)
          = map (\<lambda>i. rand_weight zero_source (randCalls t1 + 2 * i + 1)) [0..<BODYPART_COUNT * JOINT_COUNT]"
    by (rule mutate_replaces_all)
       (simp_all add: rate len1 w1 sample_walker_def BODYPART_COUNT_def JOINT_COUNT_def NUM_WALKER_LEGS_def)
  then have u0: "m_sensoryMotorWeights (walker ?u0 0) = replicate 156 (- 1)"
    by (simp only: zero_weights)
  have a01: "agree (\<lambda>k. k \<noteq> 1) ?u0 ?u1" and a12: "agree (\<lambda>k. k \<noteq> 2) ?u1 ?u2"
    and a0: "agree (\<lambda>k. k \<noteq> 0) t1 ?u0"
    by (rule mutate_frame(1))+
  have u2: "walker ?u2 0 = walker ?u0 0"
    using agree_walker [OF a12, of 0] agree_walker [OF a01, of 0] by simp
  have f2: "walker ?u2 3 = walker t1 3"
    using agree_walker [OF a12, of 3] agree_walker [OF a01, of 3] agree_walker [OF a0, of 3] by simp
  have len2: "length (m_walkersInPopulation ?u2) = 4"
    using agree_length [OF a12] agree_length [OF a01] agree_length [OF a0] len1 by simp
  have i2: "m_nextReapedIndex ?u2 = 1" by (simp add: mutate_frame(2) i1)
  obtain t3 where r: "sow_random four_slots zero_source (1, ?u2) = Inr (1 + 1, t3)"
    and a3: "agree (\<lambda>k. k \<noteq> 3) ?u2 t3"
    using sow_random_four [OF len2 i2, of zero_source 1] f1 f2 by auto
  have "walker t3 0 = walker ?u0 0" using agree_walker [OF a3, of 0] u2 by simp
  then have "m_sensoryMotorWeights (walker (b3Printf (WalkersSown 2) t3) 0) = replicate 156 (- 1)"
    using u0 by (simp add: b3Printf_def walker_def)
  moreover have "sow four_slots zero_source four_reaped = Inr (b3Printf (WalkersSown 2) t3)"
    unfolding sow_def c bindE.simps case_prod_conv mu r by simp
  ultimately have "weights_after_sow four_slots zero_source four_reaped 0 = Inr (replicate 156 (- 1))"
    by (simp add: weights_after_sow_def)
  then show ?thesis using m reap_four e tr rate w by (intro conjI)
qed

section \<open>Rounds of evaluation\<close>

lemma clock_set_walker [simp]:
  "m_SimulationTime (set_walker k w s) = m_SimulationTime s"
  "m_LastSpeedupPrintTimestamp (set_walker k w s) = m_LastSpeedupPrintTimestamp s"
  by (simp_all add: set_walker_def)

lemma clock_resetWalkerAt [simp]:
  "m_SimulationTime (resetWalkerAt rnd i p s) = m_SimulationTime s"
  "m_LastSpeedupPrintTimestamp (resetWalkerAt rnd i p s) = m_LastSpeedupPrintTimestamp s"
  by (simp_all add: resetWalkerAt_def Let_def split_beta)

lemma clock_schedule_loop:
  "m_SimulationTime (schedule_loop cfg rnd s) = m_SimulationTime s"
  "m_LastSpeedupPrintTimestamp (schedule_loop cfg rnd s) = m_LastSpeedupPrintTimestamp s"
  unfolding schedule_loop_def
  by (rule for_up_keeps, simp add: set_up_def tear_down_def Let_def b3Printf_def)+

lemma clock_updateEvaluations:
  "m_SimulationTime (updateEvaluations cfg dt s)
     = m_SimulationTime s + (if 1 / 60 < dt then 1 / 60 else dt)"
  "m_LastSpeedupPrintTimestamp (updateEvaluations cfg dt s) = m_LastSpeedupPrintTimestamp s"
proof -
  let ?d = "if 1 / 60 < dt then 1 / 60 else dt"
  let ?body = "\<lambda>r s. if m_inEvaluation (walker s (nat r))
                       then set_walker (nat r) (update_walker cfg ?d (walker s (nat r))) s else s"
  have "m_SimulationTime (for_up 0 (real (POPULATION_SIZE cfg)) ?body t) = m_SimulationTime t" for t
    by (rule for_up_keeps) simp
  moreover have "m_LastSpeedupPrintTimestamp (for_up 0 (real (POPULATION_SIZE cfg)) ?body t)
                   = m_LastSpeedupPrintTimestamp t" for t
    by (rule for_up_keeps) simp
  ultimately show "m_SimulationTime (updateEvaluations cfg dt s) = m_SimulationTime s + ?d"
    and "m_LastSpeedupPrintTimestamp (updateEvaluations cfg dt s) = m_LastSpeedupPrintTimestamp s"
    by (simp_all add: updateEvaluations_def Let_def)
qed

lemma clock_initPhysics:
  "m_SimulationTime (initPhysics cfg rnd) = 0"
  "m_LastSpeedupPrintTimestamp (initPhysics cfg rnd) = 0"
proof -
  let ?body = "\<lambda>i s. resetWalkerAt rnd i (m_resetPosition s) s"
  let ?s0 = "NN3DWalkersExample_new\<lparr>m_SimulationTime := 0\<rparr>"
  have "m_SimulationTime (for_up 0 (real (POPULATION_SIZE cfg)) ?body ?s0) = m_SimulationTime ?s0"
    by (rule for_up_keeps) simp
  moreover have "m_LastSpeedupPrintTimestamp (for_up 0 (real (POPULATION_SIZE cfg)) ?body ?s0)
                   = m_LastSpeedupPrintTimestamp ?s0"
    by (rule for_up_keeps) simp
  ultimately show "m_SimulationTime (initPhysics cfg rnd) = 0"
    and "m_LastSpeedupPrintTimestamp (initPhysics cfg rnd) = 0"
    by (simp_all add: initPhysics_def NN3DWalkersExample_new_def)
qed

text \<open>The first pre-tick callback starts as many walkers as the bound allows.\<close>

lemma after_first_tick_view:
  assumes "gParallelEvaluations cfg = real G"
  shows "view (after_first_tick cfg)
           = (int (min (POPULATION_SIZE cfg) G),
              replicate (min (POPULATION_SIZE cfg) G) (True, 0)
                @ replicate (POPULATION_SIZE cfg - min (POPULATION_SIZE cfg) G) (False, 0))"
proof -
  have fresh: "view (initPhysics cfg zero_source) = (0, replicate (POPULATION_SIZE cfg) (False, 0))"
    by (rule initPhysics_view)
  then have "count_inv cfg (initPhysics cfg zero_source)"
    using fresh_round [OF fresh] by (simp add: sched_inv_def)
  then have "view (after_first_tick cfg)
               = fold (slot_step cfg) [0..<POPULATION_SIZE cfg]
                   (0, replicate (POPULATION_SIZE cfg) (False, 0))"
    unfolding after_first_tick_def by (simp add: scheduled_count(3) fresh advance_def)
  then show ?thesis using first_pass [OF assms, of "POPULATION_SIZE cfg" "POPULATION_SIZE cfg"] by simp
qed

lemma update_first_tick:
  assumes "gParallelEvaluations cfg = real G" and "0 < G" and "0 < POPULATION_SIZE cfg"
    and "1 / 60 \<le> TIMESTAMP_TIME cfg"
  shows "update cfg zero_source (1 / 60) (initPhysics cfg zero_source) = Inr (after_first_tick cfg)"
proof -
  have "fst (view (after_first_tick cfg)) \<noteq> 0"
    using after_first_tick_view [OF assms(1)] assms(2,3) by simp
  then have c: "m_walkersInEvaluation (after_first_tick cfg) \<noteq> 0" by (simp add: view_def)
  have "m_SimulationTime (after_first_tick cfg) = 1 / 60"
    and "m_LastSpeedupPrintTimestamp (after_first_tick cfg) = 0"
    by (simp_all add: after_first_tick_def clock_schedule_loop clock_updateEvaluations clock_initPhysics)
  then show ?thesis
    using c assms(4)
    by (simp add: update_def scheduleEvaluations_def Let_def after_first_tick_def [symmetric])
qed

lemma in_evaluation_count:
  assumes "view s = (c, replicate m (True, t) @ replicate n (False, u))"
  shows "length (filter m_inEvaluation (m_walkersInPopulation s)) = m"
proof -
  have "map sched_view (m_walkersInPopulation s) = replicate m (True, t) @ replicate n (False, u)"
    using assms by (simp add: view_def)
  then have "length (filter fst (map sched_view (m_walkersInPopulation s))) = m" by simp
  then show ?thesis unfolding filter_sched_view .
qed

lemma first_wave_default:
  "view (after_first_tick default_config) = (10, replicate 10 (True, 0) @ replicate 40 (False, 0))"
  "update default_config zero_source (1 / 60) (initPhysics default_config zero_source)
     = Inr (after_first_tick default_config)"
proof -
  have G: "gParallelEvaluations default_config = real 10" by (simp add: default_config_def)
  show "view (after_first_tick default_config) = (10, replicate 10 (True, 0) @ replicate 40 (False, 0))"
    using after_first_tick_view [OF G] by (simp add: default_config_def)
  show "update default_config zero_source (1 / 60) (initPhysics default_config zero_source)
     = Inr (after_first_tick default_config)"
    by (rule update_first_tick [OF G]) (simp_all add: default_config_def)
qed

text \<open>
  C6, as the code has it. In every state of a run the counter \<open>m_walkersInEvaluation\<close> is
  the number of walkers under evaluation, and that number is at most \<open>G\<close> when the bound
  \<open>gParallelEvaluations\<close> has been at most \<open>G\<close> since start-up, whatever the sliders did. The
  scheduler starts the evaluation of a walker only while the counter is below the bound
  in force, of an idle walker whose evaluation time is 0, and adds one to the counter; it
  takes one off when it ends an evaluation.
\<close>

theorem parallel_evaluations_bounded:
  assumes "reachable rnd past cfg s"
    and "\<forall>c\<in>set (cfg # past). gParallelEvaluations c \<le> real G"
  shows "m_walkersInEvaluation s = int (length (filter m_inEvaluation (m_walkersInPopulation s)))
         \<and> length (filter m_inEvaluation (m_walkersInPopulation s)) \<le> G
         \<and> (\<forall>k. m_inEvaluation (walker (set_up cfg rnd (int k) s) k) \<and> \<not> m_inEvaluation (walker s k)
                \<longrightarrow> real_of_int (m_walkersInEvaluation s) < gParallelEvaluations cfg
                    \<and> m_evaluationTime (walker s k) = 0
                    \<and> m_walkersInEvaluation (set_up cfg rnd (int k) s) = m_walkersInEvaluation s + 1)
         \<and> (\<forall>k. m_inEvaluation (walker s k) \<and> \<not> m_inEvaluation (walker (tear_down cfg (int k) s) k)
                \<longrightarrow> m_walkersInEvaluation (tear_down cfg (int k) s) = m_walkersInEvaluation s - 1)"
proof -
  have "counted (view s)"
    using reachable_count_inv [OF assms(1)] by (simp add: count_inv_def)
  then have c: "m_walkersInEvaluation s = int (length (filter m_inEvaluation (m_walkersInPopulation s)))"
    unfolding counted_def view_def fst_conv snd_conv filter_sched_view .
  have "m_walkersInEvaluation s \<le> int G"
    by (rule reachable_bound [OF assms(1)]) (use assms(2) in simp_all)
  then have b: "length (filter m_inEvaluation (m_walkersInPopulation s)) \<le> G" using c by simp
  have up: "real_of_int (m_walkersInEvaluation s) < gParallelEvaluations cfg
            \<and> m_evaluationTime (walker s k) = 0
            \<and> m_walkersInEvaluation (set_up cfg rnd (int k) s) = m_walkersInEvaluation s + 1"
    if "m_inEvaluation (walker (set_up cfg rnd (int k) s) k) \<and> \<not> m_inEvaluation (walker s k)" for k
  proof (cases "real_of_int (m_walkersInEvaluation s) < gParallelEvaluations cfg
                \<and> \<not> m_inEvaluation (walker s k) \<and> m_evaluationTime (walker s k) = 0")
    case True
    then show ?thesis
      by (simp add: set_up_def Let_def b3Printf_def resetWalkerAt_def split_beta set_walker_def)
  next
    case False
    then have "set_up cfg rnd (int k) s = s" by (auto simp: set_up_def Let_def)
    then show ?thesis using that by simp
  qed
  have down: "m_walkersInEvaluation (tear_down cfg (int k) s) = m_walkersInEvaluation s - 1"
    if "m_inEvaluation (walker s k) \<and> \<not> m_inEvaluation (walker (tear_down cfg (int k) s) k)" for k
  proof (cases "m_inEvaluation (walker s k) \<and> EVALUATION_DURATION cfg \<le> m_evaluationTime (walker s k)")
    case True
    then show ?thesis by (simp add: tear_down_def Let_def b3Printf_def set_walker_def)
  next
    case False
    then have "tear_down cfg (int k) s = s" by (auto simp: tear_down_def Let_def)
    then show ?thesis using that by simp
  qed
  show ?thesis using c b up down by blast
qed

theorem parallel_evaluations_bounded_witness:
  "reachable zero_source [] default_config (after_first_tick default_config)
   \<and> gParallelEvaluations default_config \<le> real 10
   \<and> m_walkersInEvaluation (after_first_tick default_config) = 10
   \<and> length (filter m_inEvaluation (m_walkersInPopulation (after_first_tick default_config))) = 10"
proof -
  have r: "reachable zero_source [] default_config (after_first_tick default_config)"
    by (rule reachable.tick [OF reachable.start first_wave_default(2)])
  have g: "gParallelEvaluations default_config \<le> real 10" by (simp add: default_config_def)
  have n: "length (filter m_inEvaluation (m_walkersInPopulation (after_first_tick default_config))) = 10"
    by (rule in_evaluation_count [OF first_wave_default(1)])
  have "m_walkersInEvaluation (after_first_tick default_config)
          = int (length (filter m_inEvaluation (m_walkersInPopulation (after_first_tick default_config))))"
    using parallel_evaluations_bounded [OF r, of 10] g by simp
  then show ?thesis using r g n by simp
qed

text \<open>
  C6, as the claim has it, fails: after the first pre-tick callback ten walkers are under
  evaluation; the slider is moved to 1, and ten walkers are under evaluation against a
  bound of 1.
\<close>

theorem bound_lowered_by_slider:
  "reachable zero_source [default_config] one_at_a_time (after_first_tick default_config)
   \<and> gParallelEvaluations one_at_a_time = 1
   \<and> length (filter m_inEvaluation (m_walkersInPopulation (after_first_tick default_config))) = 10"
proof -
  have "reachable zero_source [] default_config (after_first_tick default_config)"
    by (rule reachable.tick [OF reachable.start first_wave_default(2)])
  moreover have "in_range default_config (ParallelEvaluations 1)"
    by (simp add: default_config_def)
  ultimately have "reachable zero_source [default_config] one_at_a_time (after_first_tick default_config)"
    unfolding one_at_a_time_def by (rule reachable.slider)
  moreover have "gParallelEvaluations one_at_a_time = 1" by (simp add: one_at_a_time_def)
  moreover have "length (filter m_inEvaluation (m_walkersInPopulation (after_first_tick default_config))) = 10"
    by (rule in_evaluation_count [OF first_wave_default(1)])
  ultimately show ?thesis by simp
qed

lemma fold_slot_step_fresh:
  assumes N: "0 < N" and gp: "0 < gParallelEvaluations cfg" and D: "0 < EVALUATION_DURATION cfg"
  shows "0 < fst (fold (slot_step cfg) [0..<N] (0, replicate N (False, 0)))"
proof -
  let ?I = "\<lambda>k (cv :: int \<times> (bool \<times> real) list).
              length (snd cv) = N \<and> (\<forall>v\<in>set (snd cv). snd v = 0)
              \<and> (if k = 0 then fst cv = 0 \<and> \<not> fst (snd cv ! 0) else 1 \<le> fst cv)"
  have "?I N (fold (slot_step cfg) [0..<N] (0, replicate N (False, 0)))"
  proof (rule fold_upt_invariant [of ?I _ N "slot_step cfg"])
    show "?I 0 (0, replicate N (False, 0))" using N by simp
  next
    fix k cv assume k: "k < N" and I: "?I k cv"
    obtain c vs where cv: "cv = (c, vs)" by (cases cv)
    have len: "length vs = N" and zero: "\<forall>v\<in>set vs. snd v = 0"
      using I cv by simp_all
    have t: "snd (vs ! k) = 0" using zero k len by simp
    have upd: "\<forall>v\<in>set (vs[k := (e, 0)]). snd v = 0" for e
    proof
      fix v assume "v \<in> set (vs[k := (e, 0)])"
      then have "v \<in> insert (e, 0) (set vs)"
        using set_update_subset_insert [of vs k "(e, 0)"] by blast
      then show "snd v = 0" using zero by auto
    qed
    show "?I (Suc k) (slot_step cfg k cv)"
    proof (cases "k = 0")
      case True
      then have "slot_step cfg k cv = (1, vs[k := (True, 0)])"
        using I cv t gp D by (simp add: slot_step_def Let_def)
      then show ?thesis using len upd by simp
    next
      case False
      then have c: "1 \<le> c" using I cv by simp
      have "slot_step cfg k cv = (c + 1, vs[k := (True, 0)])
            \<or> slot_step cfg k cv = (c, vs[k := (fst (vs ! k), 0)])"
        using t D by (auto simp: cv slot_step_def Let_def)
      then show ?thesis
      proof
        assume st: "slot_step cfg k cv = (c + 1, vs[k := (True, 0)])"
        show ?thesis unfolding st using c len upd [of True] by simp
      next
        assume st: "slot_step cfg k cv = (c, vs[k := (fst (vs ! k), 0)])"
        show ?thesis unfolding st using c len upd [of "fst (vs ! k)"] by simp
      qed
    qed
  qed
  then show ?thesis using N by simp
qed

lemma first_wave:
  assumes fresh: "view s = (0, replicate (POPULATION_SIZE cfg) (False, 0))"
    and N: "0 < POPULATION_SIZE cfg" and gp: "0 < gParallelEvaluations cfg"
    and D: "0 < EVALUATION_DURATION cfg"
  shows "m_walkersInEvaluation (schedule_loop cfg rnd (updateEvaluations cfg dt s)) \<noteq> 0"
proof -
  have "count_inv cfg s" using fresh_round [OF fresh] by (simp add: sched_inv_def)
  then have "view (schedule_loop cfg rnd (updateEvaluations cfg dt s))
               = fold (slot_step cfg) [0..<POPULATION_SIZE cfg]
                   (0, replicate (POPULATION_SIZE cfg) (False, 0))"
    by (simp add: scheduled_count(3) fresh advance_def)
  then have "0 < fst (view (schedule_loop cfg rnd (updateEvaluations cfg dt s)))"
    using fold_slot_step_fresh [OF N gp D] by simp
  then show ?thesis by (simp add: view_def)
qed


lemma round_of_a_tick:
  "reachable zero_source [quick_rounds] all_at_once (after_first_tick all_at_once)"
  "default_quotas all_at_once"
  "0 < gParallelEvaluations all_at_once" "0 < EVALUATION_DURATION all_at_once"
  "m_walkersInEvaluation
     (schedule_loop all_at_once zero_source
        (updateEvaluations all_at_once (1 / 60) (after_first_tick all_at_once))) = 0"
proof -
  have G: "gParallelEvaluations all_at_once = real 50"
    by (simp add: all_at_once_def)
  have N: "POPULATION_SIZE all_at_once = 50" and D: "EVALUATION_DURATION all_at_once = 1 / 60"
    and T: "TIMESTAMP_TIME all_at_once = 2000"
    by (simp_all add: all_at_once_def quick_rounds_def default_config_def)
  show q: "default_quotas all_at_once"
    by (simp add: default_quotas_def all_at_once_def quick_rounds_def default_config_def)
  show "0 < gParallelEvaluations all_at_once" "0 < EVALUATION_DURATION all_at_once"
    by (simp_all add: G D)
  have "reachable zero_source [] quick_rounds (initPhysics quick_rounds zero_source)"
    by (rule reachable.start)
  moreover have "in_range quick_rounds (ParallelEvaluations 50)"
    by (simp add: quick_rounds_def default_config_def)
  ultimately have "reachable zero_source [quick_rounds] all_at_once (initPhysics quick_rounds zero_source)"
    unfolding all_at_once_def by (rule reachable.slider)
  then have "reachable zero_source [quick_rounds] all_at_once (initPhysics all_at_once zero_source)"
    unfolding all_at_once_def initPhysics_move_slider .
  moreover have "update all_at_once zero_source (1 / 60) (initPhysics all_at_once zero_source)
                   = Inr (after_first_tick all_at_once)"
    by (rule update_first_tick [OF G]) (simp_all add: N T)
  ultimately show r: "reachable zero_source [quick_rounds] all_at_once (after_first_tick all_at_once)"
    by (rule reachable.tick)
  have v: "view (after_first_tick all_at_once) = (50, replicate 50 (True, 0))"
    using after_first_tick_view [OF G] by (simp add: N)
  have "count_inv all_at_once (after_first_tick all_at_once)" by (rule reachable_count_inv [OF r])
  then have "view (schedule_loop all_at_once zero_source
                     (updateEvaluations all_at_once (1 / 60) (after_first_tick all_at_once)))
               = fold (slot_step all_at_once) [0..<50] (int 50, replicate 50 (True, 1 / 60))"
    by (simp add: scheduled_count(3) v N advance_def)
  also have "\<dots> = (int 50 - int 50, replicate 50 (False, 1 / 60) @ replicate (50 - 50) (True, 1 / 60))"
    by (rule last_pass) (simp_all add: D)
  finally show "m_walkersInEvaluation
     (schedule_loop all_at_once zero_source
        (updateEvaluations all_at_once (1 / 60) (after_first_tick all_at_once))) = 0"
    by (simp add: view_def)
qed


section \<open>Start-up\<close>

text \<open>
  C9, as the code has it. \<^verbatim>\<open>initPhysics\<close> checks nothing and has no failing path: for
  every configuration, malformed or not, it builds \<open>POPULATION_SIZE\<close> walkers, each idle
  with evaluation time 0, leaves the counter at 0 and prints nothing, and the run starts
  from that state.
\<close>

theorem startup_checks_nothing:
  "length (m_walkersInPopulation (initPhysics cfg rnd)) = POPULATION_SIZE cfg
   \<and> map m_inEvaluation (m_walkersInPopulation (initPhysics cfg rnd)) = replicate (POPULATION_SIZE cfg) False
   \<and> map m_evaluationTime (m_walkersInPopulation (initPhysics cfg rnd)) = replicate (POPULATION_SIZE cfg) 0
   \<and> m_walkersInEvaluation (initPhysics cfg rnd) = 0
   \<and> console (initPhysics cfg rnd) = []
   \<and> reachable rnd [] cfg (initPhysics cfg rnd)"
proof -
  have v: "view (initPhysics cfg rnd) = (0, replicate (POPULATION_SIZE cfg) (False, 0))"
    by (rule initPhysics_view)
  then have m: "map sched_view (m_walkersInPopulation (initPhysics cfg rnd))
               = replicate (POPULATION_SIZE cfg) (False, 0)"
    by (simp add: view_def)
  then have "map fst (map sched_view (m_walkersInPopulation (initPhysics cfg rnd)))
               = replicate (POPULATION_SIZE cfg) False"
    by simp
  then have e: "map m_inEvaluation (m_walkersInPopulation (initPhysics cfg rnd))
               = replicate (POPULATION_SIZE cfg) False"
    by (simp add: comp_def sched_view_def)
  from m have "map snd (map sched_view (m_walkersInPopulation (initPhysics cfg rnd)))
               = replicate (POPULATION_SIZE cfg) 0"
    by simp
  then have t: "map m_evaluationTime (m_walkersInPopulation (initPhysics cfg rnd))
               = replicate (POPULATION_SIZE cfg) 0"
    by (simp add: comp_def sched_view_def)
  show ?thesis
    using v e t length_view [of "initPhysics cfg rnd"] initPhysics_view(2) [of cfg rnd]
    by (simp add: view_def reachable.start)
qed

theorem startup_checks_nothing_witness:
  "malformed excess_fractions
   \<and> length (m_walkersInPopulation (initPhysics excess_fractions zero_source)) = POPULATION_SIZE excess_fractions
   \<and> map m_evaluationTime (m_walkersInPopulation (initPhysics excess_fractions zero_source))
       = replicate (POPULATION_SIZE excess_fractions) 0
   \<and> console (initPhysics excess_fractions zero_source) = []
   \<and> reachable zero_source [] excess_fractions (initPhysics excess_fractions zero_source)"
  using startup_checks_nothing [of excess_fractions zero_source]
  by (simp add: malformed_def excess_fractions_def default_config_def)

text \<open>
  C9, as the claim has it, fails: with fractions that add up to 1.4, and with a bound of 0
  on the parallel evaluations, start-up builds the fifty walkers and prints nothing.
\<close>

theorem malformed_configuration_starts:
  "malformed no_parallelism \<and> malformed excess_fractions
   \<and> length (m_walkersInPopulation (initPhysics no_parallelism zero_source)) = 50
   \<and> console (initPhysics no_parallelism zero_source) = []
   \<and> length (m_walkersInPopulation (initPhysics excess_fractions zero_source)) = 50
   \<and> console (initPhysics excess_fractions zero_source) = []"
proof -
  have "malformed no_parallelism" "malformed excess_fractions"
    by (simp_all add: malformed_def no_parallelism_def excess_fractions_def default_config_def)
  moreover have "length (m_walkersInPopulation (initPhysics cfg zero_source)) = POPULATION_SIZE cfg"
    "console (initPhysics cfg zero_source) = []" for cfg
    using initPhysics_view [of cfg zero_source] length_view [of "initPhysics cfg zero_source"]
    by simp_all
  moreover have "POPULATION_SIZE no_parallelism = 50" "POPULATION_SIZE excess_fractions = 50"
    by (simp_all add: no_parallelism_def excess_fractions_def default_config_def)
  ultimately show ?thesis by simp
qed

end
